theory Spec2Isabelle
  imports Main
begin

section \<open>Byte arrays\<close>

text \<open>
  A \<^verbatim>\<open>QByteArray\<close> is a list of bytes. The operations of Qt that
  \<^verbatim>\<open>wsproxysession.cpp\<close> calls on it are written out here:
  \<^verbatim>\<open>trimmed()\<close> strips the six ASCII white-space bytes from both ends,
  \<^verbatim>\<open>startsWith(p)\<close> compares the first \<open>length p\<close> bytes (an empty
  \<open>p\<close> is a prefix of everything), \<^verbatim>\<open>indexOf(c, from)\<close> is
  \<open>indexOf\<close> on the bytes from \<open>from\<close> on, \<^verbatim>\<open>mid(i)\<close>
  is \<open>drop i\<close> and \<^verbatim>\<open>mid(i, n)\<close> is \<open>take n \<circ> drop i\<close>.
\<close>

type_synonym bytes = string

definition isSpace :: "char \<Rightarrow> bool" where
  "isSpace c = (c \<in> set [CHR 0x20, CHR 0x09, CHR 0x0A, CHR 0x0B, CHR 0x0C, CHR 0x0D])"

definition trimmed :: "bytes \<Rightarrow> bytes" where
  "trimmed b = rev (dropWhile isSpace (rev (dropWhile isSpace b)))"

definition startsWith :: "bytes \<Rightarrow> bytes \<Rightarrow> bool" where
  "startsWith b p = (take (length p) b = p)"

fun indexOf :: "bytes \<Rightarrow> char \<Rightarrow> nat option" where
  "indexOf [] ch = None"
| "indexOf (c # cs) ch = (if c = ch then Some 0 else map_option Suc (indexOf cs ch))"

section \<open>Extension parameters\<close>

text \<open>
  \<^verbatim>\<open>findNext(in, charList, start)\<close>: the first position at or after
  \<open>start\<close> that holds one of the bytes of \<open>charList\<close>, or -1. The model
  works on the unread part \<^verbatim>\<open>in.mid(start)\<close>, so the position it returns
  counts from \<open>start\<close>, and \<open>None\<close> is -1.
\<close>

fun findNext :: "bytes \<Rightarrow> bytes \<Rightarrow> nat option" where
  "findNext [] charList = None"
| "findNext (c # cs) charList =
     (if c \<in> set charList then Some 0 else map_option Suc (findNext cs charList))"

text \<open>
  The inner \<^verbatim>\<open>for\<close> loop of \<^verbatim>\<open>parseParams\<close> (lines 93 to 115),
  entered after the opening quote: \<open>scanQuoted cs val\<close> reads the bytes \<open>cs\<close>
  and appends to \<open>val\<close>. A backslash (0x5C) takes the next byte literally and fails
  when it is the last byte; an unescaped quote (0x22) completes the value and returns it
  with the bytes after the quote; the end of the input leaves
  \<^verbatim>\<open>complete\<close> false, which is \<open>None\<close>.
\<close>

fun scanQuoted :: "bytes \<Rightarrow> bytes \<Rightarrow> (bytes \<times> bytes) option" where
  "scanQuoted [] val = None"
| "scanQuoted (c # cs) val =
     (if c = CHR 0x5C then
        (case cs of [] \<Rightarrow> None | d # ds \<Rightarrow> scanQuoted ds (val @ [d]))
      else if c = CHR 0x22 then Some (val, cs)
      else scanQuoted cs (val @ [c]))"

text \<open>
  \<^verbatim>\<open>at = in.indexOf(';', at); start = (at != -1) ? at + 1 : in.size()\<close>:
  the unread part after the next semicolon, empty when there is none.
\<close>

definition afterSemi :: "bytes \<Rightarrow> bytes" where
  "afterSemi r = (case indexOf r CHR '';'' of None \<Rightarrow> [] | Some k \<Rightarrow> drop (k + 1) r)"

lemma findNext_less: "findNext r cl = Some k \<Longrightarrow> k < length r"
  by (induction r arbitrary: k) (auto split: if_splits)

lemma indexOf_less: "indexOf r c = Some k \<Longrightarrow> k < length r"
  by (induction r arbitrary: k) (auto split: if_splits)

lemma scanQuoted_length: "scanQuoted cs val = Some (v, r) \<Longrightarrow> length r < length cs"
  by (induction cs val rule: scanQuoted.induct) (auto split: if_splits list.splits)

lemma afterSemi_length: "length (afterSemi r) \<le> length r"
  by (simp add: afterSemi_def split: option.splits)

text \<open>
  The \<^verbatim>\<open>while(start < in.size())\<close> loop of \<^verbatim>\<open>parseParams\<close>.
  \<open>rest\<close> is the unread part \<^verbatim>\<open>in.mid(start)\<close> and \<open>out\<close> the
  hash built so far. \<open>None\<close> is the return with \<^verbatim>\<open>*ok = false\<close>
  (and an empty hash), \<open>Some out\<close> the return with \<^verbatim>\<open>*ok = true\<close>.
\<close>

function parseParams_loop :: "bytes \<Rightarrow> (bytes \<rightharpoonup> bytes) \<Rightarrow> (bytes \<rightharpoonup> bytes) option" where
  "parseParams_loop rest out =
     (if rest = [] then Some out
      else case findNext rest ''=;'' of
        None \<Rightarrow> Some (out(trimmed rest \<mapsto> []))
      | Some at \<Rightarrow>
          (let var = trimmed (take at rest) in
           if rest ! at = CHR ''='' then
             (if length rest \<le> at + 1 then None
              else let r = drop (at + 1) rest in
                if r ! 0 = CHR 0x22 then
                  (case scanQuoted (drop 1 r) [] of
                     None \<Rightarrow> None
                   | Some (val, r') \<Rightarrow> parseParams_loop (afterSemi r') (out(var \<mapsto> val)))
                else
                  (case indexOf r CHR '';'' of
                     Some k \<Rightarrow>
                       parseParams_loop (drop (k + 1) r) (out(var \<mapsto> trimmed (take k r)))
                   | None \<Rightarrow> Some (out(var \<mapsto> trimmed r))))
           else parseParams_loop (drop (at + 1) rest) (out(var \<mapsto> []))))"
  by pat_completeness auto
termination
proof (relation "measure (\<lambda>(rest, out). length rest)", goal_cases)
  case 1
  show ?case by simp
next
  case (2 rest out at var r q val r')
  have sq: "scanQuoted (drop 1 r) [] = Some (val, r')"
    using 2 by simp
  have "length r' < length (drop 1 r)"
    by (rule scanQuoted_length [OF sq])
  moreover have "length (afterSemi r') \<le> length r'"
    by (rule afterSemi_length)
  ultimately show ?case using 2 by simp
next
  case (3 rest out at var r k)
  then show ?case by auto
next
  case (4 rest out at var)
  then show ?case by (cases rest) auto
qed

definition parseParams :: "bytes \<Rightarrow> (bytes \<rightharpoonup> bytes) option" where
  "parseParams inp = parseParams_loop inp Map.empty"


text \<open>
  \<^verbatim>\<open>class HttpExtension\<close>: a name and a hash of parameters. The hash
  \<^verbatim>\<open>QHash<QByteArray, QByteArray>\<close> is a map; the null extension is the
  default-constructed one, with an empty name.
\<close>

record HttpExtension =
  name :: bytes
  params :: "bytes \<rightharpoonup> bytes"

definition nullExtension :: HttpExtension where
  "nullExtension = \<lparr>name = [], params = Map.empty\<rparr>"

definition isNull :: "HttpExtension \<Rightarrow> bool" where
  "isNull e = (name e = [])"

text \<open>
  \<^verbatim>\<open>getExtension(extStrings, name)\<close>: the first string whose part before
  the first semicolon, trimmed, is the name (or which is the name, when it has no
  semicolon) decides; when its parameters do not parse the result is the null extension.
\<close>

fun getExtension :: "bytes list \<Rightarrow> bytes \<Rightarrow> HttpExtension" where
  "getExtension [] nm = nullExtension"
| "getExtension (ext # exts) nm =
     (case indexOf ext CHR '';'' of
        Some at \<Rightarrow>
          (if trimmed (take at ext) = nm then
             (case parseParams (drop (at + 1) ext) of
                None \<Rightarrow> nullExtension
              | Some ps \<Rightarrow> \<lparr>name = nm, params = ps\<rparr>)
           else getExtension exts nm)
      | None \<Rightarrow>
          (if ext = nm then \<lparr>name = nm, params = Map.empty\<rparr>
           else getExtension exts nm))"

section \<open>Frames, transports and routes\<close>

text \<open>
  \<^verbatim>\<open>ZWebSocket::Frame\<close>. The field \<^verbatim>\<open>more\<close> is
  \<open>more_flag\<close> here (\<open>more\<close> is taken by the record package); it is
  false on the last frame of a message.
\<close>

datatype FrameType = Continuation | Text | Binary | Ping | Pong | Close

record Frame =
  type :: FrameType
  data :: bytes
  more_flag :: bool


type_synonym HttpHeaders = "(bytes \<times> bytes) list"

text \<open>
  Modelled from the spec: \<^verbatim>\<open>ZWebSocket\<close>, the transport, is declared in
  \<^verbatim>\<open>zwebsocket.h\<close>, which is not part of the source. The spec gives it
  states that include Connected and Closing, error conditions that include Connect,
  ConnectTimeout, Tls and Rejected, a queue of frames to read, and the signal
  \<^verbatim>\<open>framesWritten(n)\<close> that acknowledges \<open>n\<close> written frames as
  flushed. \<open>framesIn\<close> is the queue that \<^verbatim>\<open>framesAvailable()\<close>
  counts and \<^verbatim>\<open>readFrame()\<close> pops; \<open>unflushed\<close> counts the frames
  written with \<^verbatim>\<open>writeFrame\<close> and not yet acknowledged.
\<close>

datatype SockState = SockIdle | SockConnecting | SockConnected | SockClosing

datatype ErrorCondition =
  ErrorConnect | ErrorConnectTimeout | ErrorTls | ErrorRejected | ErrorOther nat

record ZWebSocket =
  sockState :: SockState
  framesIn :: "Frame list"
  unflushed :: nat
  errorCondition :: ErrorCondition
  responseCode :: int
  responseReason :: bytes
  responseHeaders :: HttpHeaders
  responseBody :: bytes

definition writeFrame :: "ZWebSocket \<Rightarrow> ZWebSocket" where
  "writeFrame sock = sock\<lparr>unflushed := Suc (unflushed sock)\<rparr>"

definition close :: "ZWebSocket \<Rightarrow> ZWebSocket" where
  "close sock = sock\<lparr>sockState := SockClosing\<rparr>"

definition respondSuccess :: "ZWebSocket \<Rightarrow> ZWebSocket" where
  "respondSuccess sock = sock\<lparr>sockState := SockConnected\<rparr>"

text \<open>
  The socket that \<^verbatim>\<open>zhttpManager->createSocket()\<close> returns, after
  \<^verbatim>\<open>start(uri, headers)\<close>: connecting, nothing read or written.
\<close>

definition createSocket :: ZWebSocket where
  "createSocket = \<lparr>sockState = SockConnecting, framesIn = [], unflushed = 0,
     errorCondition = ErrorOther 0, responseCode = 0, responseReason = [],
     responseHeaders = [], responseBody = []\<rparr>"

text \<open>
  \<^verbatim>\<open>DomainMap::Target\<close> and the two fields of
  \<^verbatim>\<open>DomainMap::Entry\<close> that the session keeps (the signing keys go to
  the header manipulation, which is outside the source).
\<close>

record Target =
  connectHost :: string
  connectPort :: int
  ssl :: bool
  trusted :: bool
  insecure :: bool
  host :: string
  subChannel :: string

record Entry =
  prefix :: bytes
  targets :: "Target list"

section \<open>The session\<close>

text \<open>
  Every call the session makes on a collaborator is appended to \<open>log\<close>, in the
  order of the calls: frames written to the client (\<open>InWriteFrame\<close>) and to the
  origin (\<open>OutWriteFrame\<close>), the handshake responses to the client, the closes, the
  start of an origin connection, the start of the control session, the GRIP messages
  handed to it, and the signal \<^verbatim>\<open>finishedByPassthrough\<close>.
  \<open>SendGripSubscribe c\<close> is the call of \<^verbatim>\<open>sendGripMessage\<close> with
  the serialized subscribe request for channel \<open>c\<close> (the serializer is QJson's).
\<close>

datatype Action =
    InWriteFrame Frame
  | OutWriteFrame Frame
  | InRespondSuccess bytes HttpHeaders
  | InRespondError int bytes HttpHeaders bytes
  | InClose
  | OutClose
  | OutStart Target
  | ControlStart
  | SendGripMessage bytes
  | SendGripSubscribe string
  | FinishedByPassthrough

datatype State = Idle | Connecting | Connected | Closing

text \<open>
  What ends the defined behaviour of the process instead of returning: a call through a
  null pointer, the three assertions of the file (in \<^verbatim>\<open>start\<close>,
  \<^verbatim>\<open>reject\<close> and \<^verbatim>\<open>tryReadOut\<close>), and the overflow of
  a signed counter.
\<close>

datatype Crash =
  NullDereference | AssertNoInSock | AssertConnecting | AssertInProgress | SignedOverflow

text \<open>
  \<^verbatim>\<open>WsProxySession::Private\<close>. The pointers
  \<^verbatim>\<open>wsControlManager\<close> and \<^verbatim>\<open>wsControl\<close> are booleans
  (true: not null), the two sockets are options, and \<^verbatim>\<open>outReadInProgress\<close>
  is an option with \<open>None\<close> for -1. The two counters are 32-bit C++
  \<^verbatim>\<open>int\<close>s, integers here: the increments in the pumps stand behind the
  test against \<open>PENDING_FRAMES_MAX\<close>, and the one increment that stands behind no
  test (line 660) is an overflow at \<open>INT_MAX\<close>.
\<close>

record Session =
  state :: State
  wsControlManager :: bool
  wsControl :: bool
  passToUpstream :: bool
  inSock :: "ZWebSocket option"
  outSock :: "ZWebSocket option"
  inPending :: int
  outPending :: int
  outReadInProgress :: "FrameType option"
  channelPrefix :: bytes
  targets :: "Target list"
  messagePrefix :: bytes
  detached :: bool
  subChannel :: string
  log :: "Action list"

definition PENDING_FRAMES_MAX :: int where
  "PENDING_FRAMES_MAX = 100"

definition INT_MAX :: int where
  "INT_MAX = 2147483647"

text \<open>The constructor (lines 240 to 257).\<close>

definition newSession :: "bool \<Rightarrow> Session" where
  "newSession manager = \<lparr>state = Idle, wsControlManager = manager, wsControl = False,
     passToUpstream = False, inSock = None, outSock = None, inPending = 0, outPending = 0,
     outReadInProgress = None, channelPrefix = [], targets = [], messagePrefix = [],
     detached = False, subChannel = [], log = []\<rparr>"

definition emit :: "Action \<Rightarrow> Session \<Rightarrow> Session" where
  "emit a s = s\<lparr>log := log s @ [a]\<rparr>"

subsection \<open>Handshake\<close>

definition reject :: "int \<Rightarrow> bytes \<Rightarrow> HttpHeaders \<Rightarrow> bytes \<Rightarrow> Session \<Rightarrow> Crash + Session" where
  "reject code reason headers body s =
     (if state s = Connecting then
        (case inSock s of
           None \<Rightarrow> Inl NullDereference
         | Some sock \<Rightarrow> Inr (emit (InRespondError code reason headers body) (s\<lparr>state := Closing\<rparr>)))
      else Inl AssertConnecting)"

text \<open>
  The overload with an error message (lines 388 to 391): no headers, and the message
  with a line feed appended as the body.
\<close>

definition rejectMessage :: "int \<Rightarrow> string \<Rightarrow> string \<Rightarrow> Session \<Rightarrow> Crash + Session" where
  "rejectMessage code reason errorMessage s = reject code reason [] (errorMessage @ [CHR 0x0A]) s"

definition tryNextTarget :: "Session \<Rightarrow> Crash + Session" where
  "tryNextTarget s =
     (case Session.targets s of
        [] \<Rightarrow> rejectMessage 502 ''Bad Gateway'' ''Error while proxying to origin.'' s
      | target # rest \<Rightarrow>
          Inr (emit (OutStart target)
                (s\<lparr>Session.targets := rest, Session.subChannel := Target.subChannel target,
                   outSock := Some createSocket\<rparr>)))"

text \<open>
  \<^verbatim>\<open>start(sock)\<close>. The route lookup and the header manipulation are
  outside the source: \<open>entry\<close> is what \<^verbatim>\<open>domainMap->entry\<close> returned
  (\<open>None\<close> for a null entry), \<open>hostName\<close> the host of the request URI and
  \<open>trustedClient\<close> the result of \<^verbatim>\<open>manipulateRequestHeaders\<close>.
\<close>

definition start :: "ZWebSocket \<Rightarrow> string \<Rightarrow> Entry option \<Rightarrow> bool \<Rightarrow> Session \<Rightarrow> Crash + Session" where
  "start sock hostName entry trustedClient s =
     (if inSock s = None then
        (let s1 = s\<lparr>state := Connecting, inSock := Some sock\<rparr> in
         case entry of
           None \<Rightarrow> rejectMessage 502 ''Bad Gateway'' (''No route for host: '' @ hostName) s1
         | Some e \<Rightarrow>
             tryNextTarget
               (s1\<lparr>channelPrefix := Entry.prefix e, Session.targets := Entry.targets e,
                   passToUpstream := (if trustedClient then True else passToUpstream s1)\<rparr>))
      else Inl AssertNoInSock)"


subsection \<open>The two pumps\<close>

text \<open>
  \<^verbatim>\<open>tryReadIn\<close>, client to origin. The loop runs over the frames the
  client socket holds; it returns the frames it left unread. Each turn tests
  \<^verbatim>\<open>outPending < PENDING_FRAMES_MAX\<close>, pops a frame, drops it when the
  session is detached, and otherwise writes it to the origin socket and counts it.
\<close>

fun tryReadIn_loop :: "Frame list \<Rightarrow> Session \<Rightarrow> Crash + (Frame list \<times> Session)" where
  "tryReadIn_loop [] s = Inr ([], s)"
| "tryReadIn_loop (f # fs) s =
     (if outPending s < PENDING_FRAMES_MAX then
        (if detached s then tryReadIn_loop fs s
         else case outSock s of
           None \<Rightarrow> Inl NullDereference
         | Some sock \<Rightarrow>
             tryReadIn_loop fs
               (emit (OutWriteFrame f)
                  (s\<lparr>outSock := Some (writeFrame sock), outPending := outPending s + 1\<rparr>)))
      else Inr (f # fs, s))"

definition tryReadIn :: "Session \<Rightarrow> Crash + Session" where
  "tryReadIn s =
     (case inSock s of
        None \<Rightarrow> Inl NullDereference
      | Some sock \<Rightarrow>
          (case tryReadIn_loop (framesIn sock) s of
             Inl c \<Rightarrow> Inl c
           | Inr (unread, s') \<Rightarrow> Inr (s'\<lparr>inSock := Some (sock\<lparr>framesIn := unread\<rparr>)\<rparr>)))"

text \<open>
  \<^verbatim>\<open>inSock->writeFrame(f); ++inPending;\<close>, which
  \<^verbatim>\<open>tryReadOut\<close> has four times.
\<close>

definition writeIn :: "Frame \<Rightarrow> Session \<Rightarrow> Crash + Session" where
  "writeIn f s =
     (case inSock s of
        None \<Rightarrow> Inl NullDereference
      | Some sock \<Rightarrow>
          Inr (emit (InWriteFrame f)
                 (s\<lparr>inSock := Some (writeFrame sock), inPending := inPending s + 1\<rparr>)))"

text \<open>Lines 454 and 455: the last frame of a message ends it.\<close>

definition endOfMessage :: "Frame \<Rightarrow> Session \<Rightarrow> Session" where
  "endOfMessage f s = (if more_flag f then s else s\<lparr>outReadInProgress := None\<rparr>)"

text \<open>
  Lines 417 to 456: what \<^verbatim>\<open>tryReadOut\<close> does with a Text, Binary or
  Continuation frame it has read, in the order of the source's tests.
\<close>

definition routeContent :: "Frame \<Rightarrow> Session \<Rightarrow> Crash + Session" where
  "routeContent f s =
     (if type f = Continuation \<and> outReadInProgress s = None then Inr s
      else
        (let s1 = (if type f = Continuation then s else s\<lparr>outReadInProgress := Some (type f)\<rparr>) in
         if wsControl s1 then
           (if type f = Text \<and> startsWith (data f) ''c:'' then
              (if more_flag f then Inr (endOfMessage f (s1\<lparr>outReadInProgress := None\<rparr>))
               else Inr (endOfMessage f (emit (SendGripMessage (drop 2 (data f))) s1)))
            else if type f \<noteq> Continuation \<and> startsWith (data f) (messagePrefix s1) then
              map_sum id (endOfMessage f) (writeIn f s1)
            else if type f = Continuation then
              (if outReadInProgress s1 = None then Inl AssertInProgress
               else map_sum id (endOfMessage f) (writeIn f s1))
            else Inr (endOfMessage f s1))
         else map_sum id (endOfMessage f) (writeIn f s1)))"

definition isContent :: "FrameType \<Rightarrow> bool" where
  "isContent t = (t = Text \<or> t = Binary \<or> t = Continuation)"

text \<open>
  \<^verbatim>\<open>tryReadOut\<close>, origin to client: the loop over the frames the origin
  socket holds, returning the frames left unread.
\<close>

fun tryReadOut_loop :: "Frame list \<Rightarrow> Session \<Rightarrow> Crash + (Frame list \<times> Session)" where
  "tryReadOut_loop [] s = Inr ([], s)"
| "tryReadOut_loop (f # fs) s =
     (if inPending s < PENDING_FRAMES_MAX then
        (if detached s then tryReadOut_loop fs s
         else case (if isContent (type f) then routeContent f s else writeIn f s) of
           Inl c \<Rightarrow> Inl c
         | Inr s' \<Rightarrow> tryReadOut_loop fs s')
      else Inr (f # fs, s))"

definition tryReadOut :: "Session \<Rightarrow> Crash + Session" where
  "tryReadOut s =
     (case outSock s of
        None \<Rightarrow> Inl NullDereference
      | Some sock \<Rightarrow>
          (case tryReadOut_loop (framesIn sock) s of
             Inl c \<Rightarrow> Inl c
           | Inr (unread, s') \<Rightarrow> Inr (s'\<lparr>outSock := Some (sock\<lparr>framesIn := unread\<rparr>)\<rparr>)))"

subsection \<open>Teardown\<close>

text \<open>
  \<^verbatim>\<open>cleanup()\<close> deletes the two sockets and the control session;
  \<^verbatim>\<open>tryFinish()\<close> calls it and emits the signal once both sockets are gone.
\<close>

definition cleanup :: "Session \<Rightarrow> Session" where
  "cleanup s = s\<lparr>inSock := None, outSock := None, wsControl := False\<rparr>"

definition tryFinish :: "Session \<Rightarrow> Session" where
  "tryFinish s =
     (if inSock s = None \<and> outSock s = None then emit FinishedByPassthrough (cleanup s) else s)"

text \<open>
  \<^verbatim>\<open>if(outSock && outSock->state() != ZWebSocket::Closing) outSock->close();\<close>
  and the same for the client socket.
\<close>

definition closeOut :: "Session \<Rightarrow> Session" where
  "closeOut s =
     (case outSock s of
        None \<Rightarrow> s
      | Some sock \<Rightarrow>
          (if sockState sock = SockClosing then s
           else emit OutClose (s\<lparr>outSock := Some (close sock)\<rparr>)))"

definition closeIn :: "Session \<Rightarrow> Session" where
  "closeIn s =
     (case inSock s of
        None \<Rightarrow> s
      | Some sock \<Rightarrow>
          (if sockState sock = SockClosing then s
           else emit InClose (s\<lparr>inSock := Some (close sock)\<rparr>)))"

subsection \<open>The slots\<close>

definition in_readyRead :: "Session \<Rightarrow> Crash + Session" where
  "in_readyRead s =
     (if \<not> detached s \<and> (case outSock s of None \<Rightarrow> False | Some sock \<Rightarrow> sockState sock = SockConnected)
      then tryReadIn s else Inr s)"

definition in_framesWritten :: "int \<Rightarrow> Session \<Rightarrow> Crash + Session" where
  "in_framesWritten count s =
     (let s1 = s\<lparr>inPending := inPending s - count\<rparr> in
      if detached s1 then Inr s1 else tryReadOut s1)"

definition in_peerClosed :: "Session \<Rightarrow> Session" where
  "in_peerClosed s = (if detached s then s else closeOut s)"

definition in_closed :: "Session \<Rightarrow> Session" where
  "in_closed s =
     (let s1 = s\<lparr>inSock := None\<rparr> in
      tryFinish (if detached s1 then s1 else closeOut s1))"

definition in_error :: "Session \<Rightarrow> Session" where
  "in_error s =
     (let s1 = s\<lparr>inSock := None\<rparr> in
      tryFinish (if detached s1 then s1 else s1\<lparr>outSock := None\<rparr>))"

text \<open>
  Lines 532 to 563 of \<^verbatim>\<open>out_connected\<close>: GRIP handling is activated when
  the origin's response has the extension \<open>grip\<close> or the target has a
  sub-channel. The message prefix is assigned only under the inner test that the
  extension is not null; the control session is created only when there is a control
  manager, and subscribed at once when the target has a sub-channel.
\<close>

definition activateGrip :: "bytes list \<Rightarrow> Session \<Rightarrow> Session" where
  "activateGrip wsExtensions s =
     (let grip = getExtension wsExtensions ''grip'' in
      if \<not> isNull grip \<or> Session.subChannel s \<noteq> [] then
        (let s1 =
           (if \<not> isNull grip then
              (case params grip ''message-prefix'' of
                 Some v \<Rightarrow> s\<lparr>messagePrefix := v\<rparr>
               | None \<Rightarrow> s\<lparr>messagePrefix := ''m:''\<rparr>)
            else s) in
         if wsControlManager s1 then
           (let s2 = emit ControlStart (s1\<lparr>wsControl := True\<rparr>) in
            if Session.subChannel s2 \<noteq> [] then
              emit (SendGripSubscribe (Session.subChannel s2)) s2
            else s2)
         else s1)
      else s)"

text \<open>
  \<^verbatim>\<open>out_connected\<close>. \<^verbatim>\<open>HttpHeaders::takeAll\<close> is outside the
  source: \<open>wsExtensions\<close> is the list it returns for \<open>Sec-WebSocket-Extensions\<close>
  and \<open>headers\<close> what it leaves of the origin's response headers.
\<close>

definition out_connected :: "bytes list \<Rightarrow> HttpHeaders \<Rightarrow> Session \<Rightarrow> Crash + Session" where
  "out_connected wsExtensions headers s =
     (case outSock s of
        None \<Rightarrow> Inl NullDereference
      | Some osock \<Rightarrow>
          (let s1 = activateGrip wsExtensions (s\<lparr>state := Connected\<rparr>) in
           case inSock s1 of
             None \<Rightarrow> Inl NullDereference
           | Some isock \<Rightarrow>
               tryReadIn
                 (emit (InRespondSuccess (responseReason osock) headers)
                    (s1\<lparr>inSock := Some (respondSuccess isock)\<rparr>))))"

definition out_readyRead :: "Session \<Rightarrow> Crash + Session" where
  "out_readyRead s = tryReadOut s"

definition out_framesWritten :: "int \<Rightarrow> Session \<Rightarrow> Crash + Session" where
  "out_framesWritten count s =
     (let s1 = s\<lparr>outPending := outPending s - count\<rparr> in
      if detached s1 then Inr s1 else tryReadIn s1)"

definition out_peerClosed :: "Session \<Rightarrow> Session" where
  "out_peerClosed s = (if detached s then s else closeIn s)"

definition out_closed :: "Session \<Rightarrow> Session" where
  "out_closed s =
     (let s1 = s\<lparr>outSock := None\<rparr> in
      tryFinish (if detached s1 then s1 else closeIn s1))"

definition out_error :: "Session \<Rightarrow> Crash + Session" where
  "out_error s =
     (case outSock s of
        None \<Rightarrow> Inl NullDereference
      | Some sock \<Rightarrow>
          (if detached s then Inr (tryFinish (s\<lparr>outSock := None\<rparr>))
           else if state s = Connecting then
             (case errorCondition sock of
                ErrorConnect \<Rightarrow> tryNextTarget (s\<lparr>outSock := None\<rparr>)
              | ErrorConnectTimeout \<Rightarrow> tryNextTarget (s\<lparr>outSock := None\<rparr>)
              | ErrorTls \<Rightarrow> tryNextTarget (s\<lparr>outSock := None\<rparr>)
              | ErrorRejected \<Rightarrow>
                  map_sum id (\<lambda>s'. s'\<lparr>outSock := None\<rparr>)
                    (reject (responseCode sock) (responseReason sock) (responseHeaders sock)
                       (responseBody sock) s)
              | ErrorOther n \<Rightarrow>
                  map_sum id (\<lambda>s'. s'\<lparr>outSock := None\<rparr>)
                    (rejectMessage 502 ''Bad Gateway'' ''Error while proxying to origin.'' s))
           else Inr (tryFinish (s\<lparr>inSock := None, outSock := None\<rparr>))))"

definition wsControl_sendEventReceived :: "bytes \<Rightarrow> bytes \<Rightarrow> Session \<Rightarrow> Crash + Session" where
  "wsControl_sendEventReceived contentType message s =
     (case inSock s of
        None \<Rightarrow> Inr s
      | Some sock \<Rightarrow>
          (if sockState sock = SockClosing then Inr s
           else if inPending s = INT_MAX then Inl SignedOverflow
           else
             Inr (emit (InWriteFrame
                          \<lparr>type = (if contentType = ''binary'' then Binary else Text),
                           data = message, more_flag = False\<rparr>)
                    (s\<lparr>inSock := Some (writeFrame sock), inPending := inPending s + 1\<rparr>))))"

definition wsControl_detachEventReceived :: "Session \<Rightarrow> Session" where
  "wsControl_detachEventReceived s =
     (if detached s then s else closeOut (s\<lparr>detached := True\<rparr>))"


section \<open>Events\<close>

text \<open>
  The session runs on one event loop and every slot runs to its end before the next
  event, so a run of the session is a list of events. An event is a call of
  \<^verbatim>\<open>start\<close> or a signal of one of the two sockets or of the control
  session, with what the emitter did before it signalled: \<open>InReadyRead fs\<close> and
  \<open>OutReadyRead fs\<close> carry the frames that arrived, \<open>InFramesWritten n\<close> and
  \<open>OutFramesWritten n\<close> the number of frames flushed, \<open>OutConnected\<close> the
  reason of the origin's response with the two results of
  \<^verbatim>\<open>takeAll\<close>, and \<open>OutError\<close> the error condition and the origin's
  response.
\<close>

datatype Event =
    Start string "Entry option" bool
  | InReadyRead "Frame list"
  | InFramesWritten int
  | InPeerClosed
  | InClosed
  | InError
  | OutConnected bytes "bytes list" HttpHeaders
  | OutReadyRead "Frame list"
  | OutFramesWritten int
  | OutPeerClosed
  | OutClosed
  | OutError ErrorCondition int bytes HttpHeaders bytes
  | SendEventReceived bytes bytes
  | DetachEventReceived

text \<open>
  Modelled from the spec: when the environment can raise an event. A socket or the
  control session signals only while the session holds it; \<^verbatim>\<open>start\<close> is
  called once, on the idle session; \<^verbatim>\<open>connected\<close> comes from a socket
  that is connecting; and \<^verbatim>\<open>framesWritten(n)\<close> acknowledges frames that
  were written to that socket and not acknowledged before.
\<close>

definition onSock :: "ZWebSocket option \<Rightarrow> (ZWebSocket \<Rightarrow> bool) \<Rightarrow> bool" where
  "onSock sock P = (case sock of None \<Rightarrow> False | Some x \<Rightarrow> P x)"

fun enabled :: "Event \<Rightarrow> Session \<Rightarrow> bool" where
  "enabled (Start h e t) s = (state s = Idle \<and> inSock s = None)"
| "enabled (InReadyRead fs) s = onSock (inSock s) (\<lambda>x. True)"
| "enabled (InFramesWritten n) s = onSock (inSock s) (\<lambda>x. 0 \<le> n \<and> n \<le> int (unflushed x))"
| "enabled InPeerClosed s = onSock (inSock s) (\<lambda>x. True)"
| "enabled InClosed s = onSock (inSock s) (\<lambda>x. True)"
| "enabled InError s = onSock (inSock s) (\<lambda>x. True)"
| "enabled (OutConnected r exts hs) s = onSock (outSock s) (\<lambda>x. sockState x = SockConnecting)"
| "enabled (OutReadyRead fs) s = onSock (outSock s) (\<lambda>x. True)"
| "enabled (OutFramesWritten n) s = onSock (outSock s) (\<lambda>x. 0 \<le> n \<and> n \<le> int (unflushed x))"
| "enabled OutPeerClosed s = onSock (outSock s) (\<lambda>x. True)"
| "enabled OutClosed s = onSock (outSock s) (\<lambda>x. True)"
| "enabled (OutError c code r hs b) s = onSock (outSock s) (\<lambda>x. True)"
| "enabled (SendEventReceived ct m) s = wsControl s"
| "enabled DetachEventReceived s = wsControl s"

text \<open>What the emitter did to its socket before the signal.\<close>

definition onIn :: "(ZWebSocket \<Rightarrow> ZWebSocket) \<Rightarrow> Session \<Rightarrow> Session" where
  "onIn g s = s\<lparr>inSock := map_option g (inSock s)\<rparr>"

definition onOut :: "(ZWebSocket \<Rightarrow> ZWebSocket) \<Rightarrow> Session \<Rightarrow> Session" where
  "onOut g s = s\<lparr>outSock := map_option g (outSock s)\<rparr>"

fun deliver :: "Event \<Rightarrow> Session \<Rightarrow> Session" where
  "deliver (InReadyRead fs) s = onIn (\<lambda>x. x\<lparr>framesIn := framesIn x @ fs\<rparr>) s"
| "deliver (InFramesWritten n) s = onIn (\<lambda>x. x\<lparr>unflushed := unflushed x - nat n\<rparr>) s"
| "deliver (OutReadyRead fs) s = onOut (\<lambda>x. x\<lparr>framesIn := framesIn x @ fs\<rparr>) s"
| "deliver (OutFramesWritten n) s = onOut (\<lambda>x. x\<lparr>unflushed := unflushed x - nat n\<rparr>) s"
| "deliver (OutConnected r exts hs) s =
     onOut (\<lambda>x. x\<lparr>sockState := SockConnected, responseReason := r\<rparr>) s"
| "deliver (OutError c code r hs b) s =
     onOut (\<lambda>x. x\<lparr>errorCondition := c, responseCode := code, responseReason := r,
                    responseHeaders := hs, responseBody := b\<rparr>) s"
| "deliver e s = s"

text \<open>
  The client socket handed to \<^verbatim>\<open>start\<close>: its handshake is not answered
  yet and nothing was written to it.
\<close>

definition acceptedSocket :: ZWebSocket where
  "acceptedSocket = createSocket"

text \<open>The slot (or the call of \<^verbatim>\<open>start\<close>) that an event runs.\<close>

fun slot :: "Event \<Rightarrow> Session \<Rightarrow> Crash + Session" where
  "slot (Start h e t) s = start acceptedSocket h e t s"
| "slot (InReadyRead fs) s = in_readyRead s"
| "slot (InFramesWritten n) s = in_framesWritten n s"
| "slot InPeerClosed s = Inr (in_peerClosed s)"
| "slot InClosed s = Inr (in_closed s)"
| "slot InError s = Inr (in_error s)"
| "slot (OutConnected r exts hs) s = out_connected exts hs s"
| "slot (OutReadyRead fs) s = out_readyRead s"
| "slot (OutFramesWritten n) s = out_framesWritten n s"
| "slot OutPeerClosed s = Inr (out_peerClosed s)"
| "slot OutClosed s = Inr (out_closed s)"
| "slot (OutError c code r hs b) s = out_error s"
| "slot (SendEventReceived ct m) s = wsControl_sendEventReceived ct m s"
| "slot DetachEventReceived s = Inr (wsControl_detachEventReceived s)"

definition step :: "Event \<Rightarrow> Session \<Rightarrow> Crash + Session" where
  "step e s = slot e (deliver e s)"

text \<open>
  A run: \<open>exec es s\<close> is the state after the events \<open>es\<close>, and \<open>None\<close>
  when one of them cannot be raised where it stands or its slot crashes.
\<close>

fun exec :: "Event list \<Rightarrow> Session \<Rightarrow> Session option" where
  "exec [] s = Some s"
| "exec (e # es) s =
     (if enabled e s then
        (case step e s of Inl c \<Rightarrow> None | Inr s' \<Rightarrow> exec es s')
      else None)"


section \<open>Reading the log\<close>

text \<open>
  The frames written to the client, the frames written to the origin and the GRIP
  messages handed to the control session, each in the order of the calls.
\<close>

fun clientFrames :: "Action list \<Rightarrow> Frame list" where
  "clientFrames [] = []"
| "clientFrames (InWriteFrame f # as) = f # clientFrames as"
| "clientFrames (a # as) = clientFrames as"

fun originFrames :: "Action list \<Rightarrow> Frame list" where
  "originFrames [] = []"
| "originFrames (OutWriteFrame f # as) = f # originFrames as"
| "originFrames (a # as) = originFrames as"

fun gripMessages :: "Action list \<Rightarrow> bytes list" where
  "gripMessages [] = []"
| "gripMessages (SendGripMessage m # as) = m # gripMessages as"
| "gripMessages (a # as) = gripMessages as"

text \<open>The two calls that \<^verbatim>\<open>tryReadOut\<close> makes with a frame it has read.\<close>

fun relayed :: "Action \<Rightarrow> bool" where
  "relayed (InWriteFrame f) = True"
| "relayed (SendGripMessage m) = True"
| "relayed a = False"

definition addUnflushed :: "nat \<Rightarrow> ZWebSocket option \<Rightarrow> ZWebSocket option" where
  "addUnflushed k sock = map_option (\<lambda>x. x\<lparr>unflushed := unflushed x + k\<rparr>) sock"

text \<open>
  The session after \<^verbatim>\<open>tryReadOut\<close> made the calls \<open>acts\<close>: each
  frame written to the client is counted in \<open>inPending\<close> and on the client socket.
\<close>

definition relayedTo :: "Session \<Rightarrow> Action list \<Rightarrow> FrameType option \<Rightarrow> Session" where
  "relayedTo s acts inProgress =
     s\<lparr>inSock := addUnflushed (length (clientFrames acts)) (inSock s),
       inPending := inPending s + int (length (clientFrames acts)),
       outReadInProgress := inProgress,
       log := log s @ acts\<rparr>"

section \<open>Example sessions\<close>

text \<open>
  A route with one target, and the session after \<^verbatim>\<open>start\<close> on that route:
  the states that the general theorems below are applied to.
\<close>

definition exampleTarget :: Target where
  "exampleTarget = \<lparr>connectHost = ''origin'', connectPort = 80, ssl = False, trusted = False,
     insecure = False, host = [], subChannel = []\<rparr>"

definition exampleEntry :: Entry where
  "exampleEntry = \<lparr>prefix = [], targets = [exampleTarget]\<rparr>"

definition connectingSession :: "bool \<Rightarrow> Session" where
  "connectingSession manager =
     (newSession manager)\<lparr>state := Connecting, inSock := Some acceptedSocket,
        outSock := Some createSocket, log := [OutStart exampleTarget]\<rparr>"

text \<open>
  The session after the origin accepted with the extension \<open>grip\<close>, given by
  its fields: whether a control manager exists, whether a control session is attached,
  and the message prefix.
\<close>

definition connectedSession :: "bool \<Rightarrow> bool \<Rightarrow> bytes \<Rightarrow> Session" where
  "connectedSession manager control pfx =
     (newSession manager)\<lparr>state := Connected, wsControl := control,
        inSock := Some (respondSuccess acceptedSocket),
        outSock := Some (createSocket\<lparr>sockState := SockConnected\<rparr>),
        messagePrefix := pfx,
        log := [OutStart exampleTarget] @ (if control then [ControlStart] else []) @
               [InRespondSuccess [] []]\<rparr>"

lemmas handshake_defs = reject_def rejectMessage_def tryNextTarget_def emit_def

lemmas run_defs = step_def onSock_def onIn_def onOut_def newSession_def acceptedSocket_def
  createSocket_def exampleEntry_def exampleTarget_def connectingSession_def start_def
  handshake_defs

lemma connectingSession_reached:
  "exec [Start ''example.com'' (Some exampleEntry) False] (newSession manager) =
     Some (connectingSession manager)"
  by (simp add: run_defs)

lemmas pump_defs = tryReadIn_def tryReadOut_def routeContent_def writeIn_def endOfMessage_def
  isContent_def startsWith_def writeFrame_def PENDING_FRAMES_MAX_def

lemma connectedSession_reached:
  "exec [Start ''example.com'' (Some exampleEntry) False, OutConnected [] [''grip''] []]
     (newSession manager) = Some (connectedSession manager manager ''m:'')"
  by (simp add: run_defs out_connected_def activateGrip_def Let_def tryReadIn_def connectedSession_def respondSuccess_def
      isNull_def afterSemi_def parseParams_def)


section \<open>Invariants of a run\<close>

text \<open>
  \<open>phase\<close> collects the fields that the pumps never change. \<open>orderly\<close> is
  the order in which a session moves: a control session exists and a detach happens only
  once the session is connected; a detached session has no origin socket, or one that is
  closing; a connected session has no origin socket that is still connecting; and the
  message prefix is empty until the session is connected.
\<close>

definition phase ::
  "Session \<Rightarrow> State \<times> bool \<times> bool \<times> bool \<times> bytes \<times> SockState option \<times> SockState option" where
  "phase s = (state s, wsControlManager s, wsControl s, detached s, messagePrefix s,
     map_option sockState (inSock s), map_option sockState (outSock s))"

definition orderly :: "Session \<Rightarrow> bool" where
  "orderly s =
     ((wsControl s \<longrightarrow> state s = Connected) \<and>
      (detached s \<longrightarrow> state s = Connected \<and>
         map_option sockState (outSock s) \<noteq> Some SockConnecting \<and>
         map_option sockState (outSock s) \<noteq> Some SockConnected \<and>
         map_option sockState (outSock s) \<noteq> Some SockIdle) \<and>
      (state s = Connected \<longrightarrow> map_option sockState (outSock s) \<noteq> Some SockConnecting) \<and>
      (state s \<noteq> Connected \<longrightarrow> messagePrefix s = []))"

text \<open>
  What \<open>activateGrip\<close> computes, one field at a time: the prefix it leaves in
  \<open>messagePrefix\<close>, whether GRIP handling is activated, and the calls it makes on
  the control session.
\<close>

definition gripPrefix :: "bytes list \<Rightarrow> bytes \<Rightarrow> bytes" where
  "gripPrefix exts old =
     (let grip = getExtension exts ''grip'' in
      if isNull grip then old
      else case params grip ''message-prefix'' of Some v \<Rightarrow> v | None \<Rightarrow> ''m:'')"

definition gripActive :: "bytes list \<Rightarrow> Session \<Rightarrow> bool" where
  "gripActive exts s = (\<not> isNull (getExtension exts ''grip'') \<or> Session.subChannel s \<noteq> [])"

definition gripCalls :: "bytes list \<Rightarrow> Session \<Rightarrow> Action list" where
  "gripCalls exts s =
     (if gripActive exts s \<and> wsControlManager s then
        ControlStart #
          (if Session.subChannel s = [] then [] else [SendGripSubscribe (Session.subChannel s)])
      else [])"


text \<open>
  Which call an event can lead to, given the state it meets: frames go to the origin
  only from the events that run \<^verbatim>\<open>tryReadIn\<close> and only while the session
  is not detached; frames go to the client from the events that run
  \<^verbatim>\<open>tryReadOut\<close> while the session is not detached, and from a send event
  of the control session; a GRIP message needs a control session; the control session
  is started only on \<^verbatim>\<open>connected\<close> and only with a control manager; the
  client gets an error response only from \<^verbatim>\<open>start\<close> and from an origin
  error in state Connecting. \<open>loggedBy P s s'\<close> says that the log of \<open>s'\<close>
  is the log of \<open>s\<close> with calls that all satisfy \<open>P\<close> appended.
\<close>

fun isStart :: "Event \<Rightarrow> bool" where
  "isStart (Start h en t) = True"
| "isStart e = False"

fun isOutConnected :: "Event \<Rightarrow> bool" where
  "isOutConnected (OutConnected r exts hs) = True"
| "isOutConnected e = False"

fun isOutError :: "Event \<Rightarrow> bool" where
  "isOutError (OutError c code r hs b) = True"
| "isOutError e = False"

fun pumpsIn :: "Event \<Rightarrow> bool" where
  "pumpsIn (InReadyRead fs) = True"
| "pumpsIn (OutFramesWritten n) = True"
| "pumpsIn (OutConnected r exts hs) = True"
| "pumpsIn e = False"

fun pumpsOut :: "Event \<Rightarrow> bool" where
  "pumpsOut (OutReadyRead fs) = True"
| "pumpsOut (InFramesWritten n) = True"
| "pumpsOut e = False"

fun sendEventFrame :: "Event \<Rightarrow> Frame list" where
  "sendEventFrame (SendEventReceived ct m) =
     [\<lparr>type = (if ct = ''binary'' then Binary else Text), data = m, more_flag = False\<rparr>]"
| "sendEventFrame e = []"

fun permitted :: "Event \<Rightarrow> Session \<Rightarrow> Action \<Rightarrow> bool" where
  "permitted e s (OutWriteFrame f) = (\<not> detached s \<and> pumpsIn e)"
| "permitted e s (InWriteFrame f) = ((\<not> detached s \<and> pumpsOut e) \<or> sendEventFrame e = [f])"
| "permitted e s (SendGripMessage m) = (\<not> detached s \<and> wsControl s \<and> pumpsOut e)"
| "permitted e s ControlStart = (isOutConnected e \<and> wsControlManager s)"
| "permitted e s (SendGripSubscribe c) = (isOutConnected e \<and> wsControlManager s)"
| "permitted e s (InRespondSuccess r h) = isOutConnected e"
| "permitted e s (InRespondError c r h b) =
     (isStart e \<or> (isOutError e \<and> state s = Connecting \<and> \<not> detached s))"
| "permitted e s (OutStart t) =
     (isStart e \<or> (isOutError e \<and> state s = Connecting \<and> \<not> detached s))"
| "permitted e s InClose = (\<not> detached s \<and> (e = OutPeerClosed \<or> e = OutClosed))"
| "permitted e s OutClose =
     (\<not> detached s \<and> (e = InPeerClosed \<or> e = InClosed \<or> e = DetachEventReceived))"
| "permitted e s FinishedByPassthrough =
     (e = InClosed \<or> e = InError \<or> e = OutClosed \<or> isOutError e)"

definition loggedBy :: "(Action \<Rightarrow> bool) \<Rightarrow> Session \<Rightarrow> Session \<Rightarrow> bool" where
  "loggedBy P s s' = (\<exists>acts. log s' = log s @ acts \<and> list_all P acts)"






section \<open>What a pump changes\<close>

lemma addUnflushed_simps [simp]:
  "addUnflushed k None = None"
  "addUnflushed 0 sock = sock"
  "addUnflushed k (Some x) = Some (x\<lparr>unflushed := unflushed x + k\<rparr>)"
  "addUnflushed k (addUnflushed j sock) = addUnflushed (j + k) sock"
  by (cases sock; simp add: addUnflushed_def)+

lemma tryReadIn_loop_shape:
  "tryReadIn_loop fs s = Inr (rest, s') \<Longrightarrow>
     \<exists>ws. s' = s\<lparr>outSock := addUnflushed (length ws) (outSock s),
                   outPending := outPending s + int (length ws),
                   log := log s @ map OutWriteFrame ws\<rparr> \<and>
          (if detached s then ws = [] else fs = ws @ rest) \<and>
          (ws = [] \<or> outPending s + int (length ws) \<le> PENDING_FRAMES_MAX)"
proof (induction fs arbitrary: s)
  case Nil
  then show ?case by (intro exI [of _ "[]"]) simp
next
  case (Cons f fs)
  show ?case
  proof (cases "outPending s < PENDING_FRAMES_MAX")
    case False
    with Cons.prems show ?thesis by (intro exI [of _ "[]"]) simp
  next
    case room: True
    show ?thesis
    proof (cases "detached s")
      case True
      with room Cons.prems have "tryReadIn_loop fs s = Inr (rest, s')" by simp
      from Cons.IH [OF this] True show ?thesis by simp
    next
      case False
      with room Cons.prems obtain sock where sock: "outSock s = Some sock"
        by (auto split: option.splits)
      let ?s1 = "emit (OutWriteFrame f) (s\<lparr>outSock := Some (writeFrame sock), outPending := outPending s + 1\<rparr>)"
      from room False sock Cons.prems have "tryReadIn_loop fs ?s1 = Inr (rest, s')" by simp
      from Cons.IH [OF this] obtain ws where
        ws: "s' = ?s1\<lparr>outSock := addUnflushed (length ws) (outSock ?s1),
                   outPending := outPending ?s1 + int (length ws),
                   log := log ?s1 @ map OutWriteFrame ws\<rparr>"
          "if detached ?s1 then ws = [] else fs = ws @ rest"
          "ws = [] \<or> outPending ?s1 + int (length ws) \<le> PENDING_FRAMES_MAX"
        by blast
      show ?thesis
        using ws False sock room
        by (intro exI [of _ "f # ws"]) (auto simp: emit_def writeFrame_def)
    qed
  qed
qed


lemma clientFrames_append [simp]: "clientFrames (xs @ ys) = clientFrames xs @ clientFrames ys"
  by (induction xs rule: clientFrames.induct) simp_all

lemma originFrames_append [simp]: "originFrames (xs @ ys) = originFrames xs @ originFrames ys"
  by (induction xs rule: originFrames.induct) simp_all

lemma gripMessages_append [simp]: "gripMessages (xs @ ys) = gripMessages xs @ gripMessages ys"
  by (induction xs rule: gripMessages.induct) simp_all

lemma writeIn_shape:
  "writeIn f s = Inr s' \<Longrightarrow> s' = relayedTo s [InWriteFrame f] (outReadInProgress s)"
  by (auto simp: writeIn_def relayedTo_def emit_def writeFrame_def split: option.splits)

lemma routeContent_shape:
  "routeContent f s = Inr s' \<Longrightarrow>
     s' = relayedTo s [] (outReadInProgress s') \<or>
     s' = relayedTo s [InWriteFrame f] (outReadInProgress s') \<or>
     (wsControl s \<and> s' = relayedTo s [SendGripMessage (drop 2 (data f))] (outReadInProgress s'))"
  unfolding routeContent_def Let_def endOfMessage_def
  by (auto simp: relayedTo_def emit_def writeIn_def writeFrame_def split: if_splits option.splits)

lemma relayedTo_relayedTo:
  "relayedTo (relayedTo s as p) bs q = relayedTo s (as @ bs) q"
  by (simp add: relayedTo_def add.commute)

lemma relayedTo_fields [simp]:
  "state (relayedTo s as p) = state s"
  "wsControlManager (relayedTo s as p) = wsControlManager s"
  "wsControl (relayedTo s as p) = wsControl s"
  "passToUpstream (relayedTo s as p) = passToUpstream s"
  "outSock (relayedTo s as p) = outSock s"
  "outPending (relayedTo s as p) = outPending s"
  "channelPrefix (relayedTo s as p) = channelPrefix s"
  "Session.targets (relayedTo s as p) = Session.targets s"
  "messagePrefix (relayedTo s as p) = messagePrefix s"
  "detached (relayedTo s as p) = detached s"
  "Session.subChannel (relayedTo s as p) = Session.subChannel s"
  "inPending (relayedTo s as p) = inPending s + int (length (clientFrames as))"
  "inSock (relayedTo s as p) = addUnflushed (length (clientFrames as)) (inSock s)"
  "outReadInProgress (relayedTo s as p) = p"
  "log (relayedTo s as p) = log s @ as"
  by (simp_all add: relayedTo_def)

lemma tryReadOut_loop_shape:
  "tryReadOut_loop fs s = Inr (rest, s') \<Longrightarrow>
     \<exists>acts. s' = relayedTo s acts (outReadInProgress s') \<and>
       list_all relayed acts \<and>
       (if detached s then acts = [] \<and> outReadInProgress s' = outReadInProgress s else True) \<and>
       (wsControl s \<or> gripMessages acts = []) \<and>
       (clientFrames acts = [] \<or>
        inPending s + int (length (clientFrames acts)) \<le> PENDING_FRAMES_MAX)"
proof (induction fs arbitrary: s)
  case Nil
  then show ?case by (intro exI [of _ "[]"]) (simp add: relayedTo_def)
next
  case (Cons f fs)
  show ?case
  proof (cases "inPending s < PENDING_FRAMES_MAX")
    case False
    with Cons.prems show ?thesis by (intro exI [of _ "[]"]) (simp add: relayedTo_def)
  next
    case room: True
    show ?thesis
    proof (cases "detached s")
      case True
      with room Cons.prems have "tryReadOut_loop fs s = Inr (rest, s')" by simp
      then show ?thesis by (rule Cons.IH)
    next
      case False
      with room Cons.prems obtain s1 where
        s1: "(if isContent (type f) then routeContent f s else writeIn f s) = Inr s1"
        and loop: "tryReadOut_loop fs s1 = Inr (rest, s')"
        by (auto split: sum.splits)
      from s1 obtain a where a: "s1 = relayedTo s a (outReadInProgress s1)"
        "a = [] \<or> a = [InWriteFrame f] \<or> (wsControl s \<and> a = [SendGripMessage (drop 2 (data f))])"
        using routeContent_shape [of f s s1] writeIn_shape [of f s s1]
        by (auto split: if_splits)
      from Cons.IH [OF loop] obtain acts where
        acts: "s' = relayedTo s1 acts (outReadInProgress s')" "list_all relayed acts"
          "wsControl s1 \<or> gripMessages acts = []"
          "clientFrames acts = [] \<or>
             inPending s1 + int (length (clientFrames acts)) \<le> PENDING_FRAMES_MAX"
        by blast
      have eq: "s' = relayedTo s (a @ acts) (outReadInProgress s')"
        using a(1) acts(1) relayedTo_relayedTo by metis
      have w: "wsControl s1 = wsControl s" "inPending s1 = inPending s + int (length (clientFrames a))"
        by (subst a(1), simp)+
      show ?thesis
        using eq a(2) acts(2-) False room w
        by (intro exI [of _ "a @ acts"]) (auto simp: PENDING_FRAMES_MAX_def)
    qed
  qed
qed


lemma tryReadIn_shape:
  "tryReadIn s = Inr s' \<Longrightarrow>
     \<exists>ws unread sock. inSock s = Some sock \<and>
       s' = s\<lparr>inSock := Some (sock\<lparr>framesIn := unread\<rparr>),
              outSock := addUnflushed (length ws) (outSock s),
              outPending := outPending s + int (length ws),
              log := log s @ map OutWriteFrame ws\<rparr> \<and>
       (if detached s then ws = [] else True) \<and>
       (ws = [] \<or> outPending s + int (length ws) \<le> PENDING_FRAMES_MAX)"
proof -
  assume run: "tryReadIn s = Inr s'"
  then obtain sock unread s1 where sock: "inSock s = Some sock"
    and loop: "tryReadIn_loop (framesIn sock) s = Inr (unread, s1)"
    and s': "s' = s1\<lparr>inSock := Some (sock\<lparr>framesIn := unread\<rparr>)\<rparr>"
    by (auto simp: tryReadIn_def split: option.splits sum.splits)
  from tryReadIn_loop_shape [OF loop] obtain ws where
    ws: "s1 = s\<lparr>outSock := addUnflushed (length ws) (outSock s),
                  outPending := outPending s + int (length ws),
                  log := log s @ map OutWriteFrame ws\<rparr>"
      "if detached s then ws = [] else framesIn sock = ws @ unread"
      "ws = [] \<or> outPending s + int (length ws) \<le> PENDING_FRAMES_MAX"
    by blast
  show ?thesis
    using sock s' ws
    by (intro exI [of _ ws] exI [of _ unread] exI [of _ sock]) (auto split: if_splits)
qed

lemma tryReadOut_shape:
  "tryReadOut s = Inr s' \<Longrightarrow>
     \<exists>acts unread sock p. outSock s = Some sock \<and>
       s' = (relayedTo s acts p)\<lparr>outSock := Some (sock\<lparr>framesIn := unread\<rparr>)\<rparr> \<and>
       list_all relayed acts \<and>
       (if detached s then acts = [] \<and> p = outReadInProgress s else True) \<and>
       (wsControl s \<or> gripMessages acts = []) \<and>
       (clientFrames acts = [] \<or>
        inPending s + int (length (clientFrames acts)) \<le> PENDING_FRAMES_MAX)"
proof -
  assume run: "tryReadOut s = Inr s'"
  then obtain sock unread s1 where sock: "outSock s = Some sock"
    and loop: "tryReadOut_loop (framesIn sock) s = Inr (unread, s1)"
    and s': "s' = s1\<lparr>outSock := Some (sock\<lparr>framesIn := unread\<rparr>)\<rparr>"
    by (auto simp: tryReadOut_def split: option.splits sum.splits)
  from tryReadOut_loop_shape [OF loop] obtain acts where
    acts: "s1 = relayedTo s acts (outReadInProgress s1)" "list_all relayed acts"
      "if detached s then acts = [] \<and> outReadInProgress s1 = outReadInProgress s else True"
      "wsControl s \<or> gripMessages acts = []"
      "clientFrames acts = [] \<or>
         inPending s + int (length (clientFrames acts)) \<le> PENDING_FRAMES_MAX"
    by blast
  have "s' = (relayedTo s acts (outReadInProgress s1))\<lparr>outSock := Some (sock\<lparr>framesIn := unread\<rparr>)\<rparr>"
    using s' acts(1) by simp
  then show ?thesis
    using sock acts(2-)
    by (intro exI [of _ acts] exI [of _ unread] exI [of _ sock] exI [of _ "outReadInProgress s1"])
       simp
qed

section \<open>The order of a session\<close>


lemma exec_invariant:
  assumes "exec es s0 = Some s" and "P s0"
    and "\<And>e s s'. P s \<Longrightarrow> enabled e s \<Longrightarrow> step e s = Inr s' \<Longrightarrow> P s'"
  shows "P s"
  using assms(1,2)
proof (induction es arbitrary: s0)
  case Nil
  then show ?case by simp
next
  case (Cons e es)
  then show ?case
    by (auto split: if_splits sum.splits intro: assms(3))
qed

lemma tryReadIn_phase: "tryReadIn s = Inr s' \<Longrightarrow> phase s' = phase s"
  by (drule tryReadIn_shape, cases "outSock s") (auto simp: phase_def)

lemma tryReadOut_phase: "tryReadOut s = Inr s' \<Longrightarrow> phase s' = phase s"
  by (drule tryReadOut_shape, cases "inSock s") (auto simp: phase_def)

lemma orderly_phase: "phase s' = phase s \<Longrightarrow> orderly s' = orderly s"
  by (simp add: phase_def orderly_def)

lemma phase_deliver [simp]:
  "phase (onIn (\<lambda>x. x\<lparr>framesIn := g x\<rparr>) s) = phase s"
  "phase (onIn (\<lambda>x. x\<lparr>unflushed := k x\<rparr>) s) = phase s"
  "phase (onOut (\<lambda>x. x\<lparr>framesIn := g x\<rparr>) s) = phase s"
  "phase (onOut (\<lambda>x. x\<lparr>unflushed := k x\<rparr>) s) = phase s"
  "phase (onOut (\<lambda>x. x\<lparr>errorCondition := c, responseCode := code, responseReason := r,
                    responseHeaders := hs, responseBody := b\<rparr>) s) = phase s"
  by (simp_all add: phase_def onIn_def onOut_def option.map_comp comp_def)


lemma pump_slots_phase:
  "in_readyRead s = Inr s' \<Longrightarrow> phase s' = phase s"
  "in_framesWritten n s = Inr s' \<Longrightarrow> phase s' = phase s"
  "out_readyRead s = Inr s' \<Longrightarrow> phase s' = phase s"
  "out_framesWritten n s = Inr s' \<Longrightarrow> phase s' = phase s"
proof -
  show "in_readyRead s = Inr s' \<Longrightarrow> phase s' = phase s"
    by (auto simp: in_readyRead_def dest: tryReadIn_phase split: if_splits)
  show "out_readyRead s = Inr s' \<Longrightarrow> phase s' = phase s"
    by (auto simp: out_readyRead_def dest: tryReadOut_phase)
  have a: "phase (s\<lparr>inPending := x\<rparr>) = phase s" "phase (s\<lparr>outPending := x\<rparr>) = phase s" for x
    by (simp_all add: phase_def)
  show "in_framesWritten n s = Inr s' \<Longrightarrow> phase s' = phase s"
    using a by (auto simp: in_framesWritten_def Let_def dest!: tryReadOut_phase split: if_splits)
  show "out_framesWritten n s = Inr s' \<Longrightarrow> phase s' = phase s"
    using a by (auto simp: out_framesWritten_def Let_def dest!: tryReadIn_phase split: if_splits)
qed



lemma orderly_closeOut: "orderly s \<Longrightarrow> orderly (closeOut s)"
  by (cases "outSock s") (simp_all add: closeOut_def orderly_def emit_def close_def)

lemma orderly_closeIn: "orderly s \<Longrightarrow> orderly (closeIn s)"
  by (cases "inSock s") (simp_all add: closeIn_def orderly_def emit_def close_def)

lemma orderly_tryFinish: "orderly s \<Longrightarrow> orderly (tryFinish s)"
  by (simp add: tryFinish_def cleanup_def orderly_def emit_def)

lemma orderly_dropIn: "orderly s \<Longrightarrow> orderly (s\<lparr>inSock := x\<rparr>)"
  by (simp add: orderly_def)

lemma orderly_dropOut: "orderly s \<Longrightarrow> orderly (s\<lparr>outSock := None\<rparr>)"
  by (simp add: orderly_def)

lemma orderly_plain_slots:
  assumes "orderly s"
  shows "orderly (in_peerClosed s)" "orderly (in_closed s)" "orderly (in_error s)"
    "orderly (out_peerClosed s)" "orderly (out_closed s)"
  using assms
  by (simp_all add: in_peerClosed_def in_closed_def in_error_def out_peerClosed_def
      out_closed_def Let_def orderly_closeOut orderly_closeIn orderly_tryFinish orderly_dropIn
      orderly_dropOut)

lemma sendEvent_phase: "wsControl_sendEventReceived ct m s = Inr s' \<Longrightarrow> phase s' = phase s"
  by (cases "inSock s")
     (auto simp: wsControl_sendEventReceived_def phase_def emit_def writeFrame_def
        split: if_splits)

lemma orderly_detach: "orderly s \<Longrightarrow> wsControl s \<Longrightarrow> orderly (wsControl_detachEventReceived s)"
  by (cases "outSock s")
     (auto simp: wsControl_detachEventReceived_def closeOut_def orderly_def emit_def close_def)

lemma orderly_reject: "reject c r h b s = Inr s' \<Longrightarrow> orderly s \<Longrightarrow> orderly s'"
  by (cases "inSock s") (auto simp: reject_def orderly_def emit_def split: if_splits)

lemma orderly_tryNextTarget:
  "tryNextTarget s = Inr s' \<Longrightarrow> orderly s \<Longrightarrow> state s = Connecting \<Longrightarrow> orderly s'"
  by (cases "Session.targets s")
     (auto simp: tryNextTarget_def rejectMessage_def orderly_def emit_def dest: orderly_reject)

lemma orderly_start:
  assumes "start sock h en t s = Inr s'" and "orderly s" and "state s = Idle"
  shows "orderly s'"
proof -
  have o: "orderly (s\<lparr>state := Connecting, inSock := Some sock\<rparr>)"
    using assms(2,3) by (simp add: orderly_def)
  show ?thesis
  proof (cases en)
    case None
    with assms(1) o show ?thesis
      by (auto simp: start_def Let_def rejectMessage_def split: if_splits dest: orderly_reject)
  next
    case (Some e)
    let ?s1 = "s\<lparr>state := Connecting, inSock := Some sock, channelPrefix := Entry.prefix e,
      Session.targets := Entry.targets e, passToUpstream := (if t then True else passToUpstream s)\<rparr>"
    have "orderly ?s1" using o by (simp add: orderly_def)
    moreover have "tryNextTarget ?s1 = Inr s'"
      using assms(1) Some by (simp add: start_def Let_def split: if_splits)
    ultimately show ?thesis by (auto dest: orderly_tryNextTarget)
  qed
qed

lemma map_sum_Inr: "map_sum id g r = Inr y \<Longrightarrow> \<exists>x. r = Inr x \<and> y = g x"
  by (cases r) auto

lemma orderly_out_error:
  assumes "out_error s = Inr s'" and "orderly s"
  shows "orderly s'"
proof -
  from assms(1) obtain sock where sock: "outSock s = Some sock"
    by (auto simp: out_error_def split: option.splits)
  show ?thesis
  proof (cases "detached s")
    case True
    with assms sock show ?thesis
      by (auto simp: out_error_def intro!: orderly_tryFinish orderly_dropOut)
  next
    case nd: False
    show ?thesis
    proof (cases "state s = Connecting")
      case False
      with nd assms sock show ?thesis
        by (auto simp: out_error_def intro!: orderly_tryFinish orderly_dropOut orderly_dropIn)
    next
      case True
      have o: "orderly (s\<lparr>outSock := None\<rparr>)" using assms(2) by (rule orderly_dropOut)
      show ?thesis
      proof (cases "errorCondition sock")
        case ErrorRejected
        with True nd assms sock show ?thesis
          by (auto simp: out_error_def intro!: orderly_dropOut dest!: map_sum_Inr dest: orderly_reject)
      next
        case (ErrorOther n)
        with True nd assms sock show ?thesis
          by (auto simp: out_error_def rejectMessage_def intro!: orderly_dropOut dest!: map_sum_Inr dest: orderly_reject)
      qed (use True nd assms(1) sock o in \<open>auto simp: out_error_def dest: orderly_tryNextTarget\<close>)
    qed
  qed
qed


lemma activateGrip_eq:
  "activateGrip exts s =
     s\<lparr>wsControl := wsControl s \<or> (gripActive exts s \<and> wsControlManager s),
       messagePrefix := gripPrefix exts (messagePrefix s),
       log := log s @ gripCalls exts s\<rparr>"
  by (cases "params (getExtension exts ''grip'') ''message-prefix''")
     (simp_all add: activateGrip_def gripActive_def gripPrefix_def gripCalls_def Let_def emit_def)

lemma grip_state [simp]:
  "gripActive exts (s\<lparr>state := x\<rparr>) = gripActive exts s"
  "gripCalls exts (s\<lparr>state := x\<rparr>) = gripCalls exts s"
  by (simp_all add: gripActive_def gripCalls_def)

lemma out_connected_shape:
  assumes "out_connected exts hs s = Inr s'"
  shows "\<exists>osock isock. outSock s = Some osock \<and> inSock s = Some isock \<and>
           tryReadIn (s\<lparr>state := Connected,
                        wsControl := wsControl s \<or> (gripActive exts s \<and> wsControlManager s),
                        messagePrefix := gripPrefix exts (messagePrefix s),
                        inSock := Some (respondSuccess isock),
                        log := log s @ gripCalls exts s @
                               [InRespondSuccess (responseReason osock) hs]\<rparr>) = Inr s'"
  using assms
  by (cases "outSock s"; cases "inSock s")
     (simp_all add: out_connected_def activateGrip_eq emit_def)

lemma out_connected_phase:
  assumes "out_connected exts hs s = Inr s'"
  shows "phase s' = (Connected, wsControlManager s,
           (wsControl s \<or> (gripActive exts s \<and> wsControlManager s)), detached s,
           gripPrefix exts (messagePrefix s), Some SockConnected,
           map_option sockState (outSock s))"
  using out_connected_shape [OF assms]
  by (auto dest!: tryReadIn_phase simp: phase_def respondSuccess_def)

lemma orderly_step:
  assumes "orderly s" and "enabled e s" and "step e s = Inr s'"
  shows "orderly s'"
proof (cases e)
  case (Start h en t)
  with assms show ?thesis by (auto simp: step_def dest: orderly_start)
next
  case (InReadyRead fs)
  with assms(3) have "in_readyRead (deliver e s) = Inr s'" by (simp only: step_def slot.simps)
  then have "phase s' = phase (deliver e s)" by (rule pump_slots_phase)
  also have "\<dots> = phase s" unfolding InReadyRead by simp
  finally have "orderly s' = orderly s" by (rule orderly_phase)
  with assms(1) show ?thesis by simp
next
  case (InFramesWritten n)
  with assms(3) have "in_framesWritten n (deliver e s) = Inr s'" by (simp only: step_def slot.simps)
  then have "phase s' = phase (deliver e s)" by (rule pump_slots_phase)
  also have "\<dots> = phase s" unfolding InFramesWritten by simp
  finally have "orderly s' = orderly s" by (rule orderly_phase)
  with assms(1) show ?thesis by simp
next
  case (OutReadyRead fs)
  with assms(3) have "out_readyRead (deliver e s) = Inr s'" by (simp only: step_def slot.simps)
  then have "phase s' = phase (deliver e s)" by (rule pump_slots_phase)
  also have "\<dots> = phase s" unfolding OutReadyRead by simp
  finally have "orderly s' = orderly s" by (rule orderly_phase)
  with assms(1) show ?thesis by simp
next
  case (OutFramesWritten n)
  with assms(3) have "out_framesWritten n (deliver e s) = Inr s'" by (simp only: step_def slot.simps)
  then have "phase s' = phase (deliver e s)" by (rule pump_slots_phase)
  also have "\<dots> = phase s" unfolding OutFramesWritten by simp
  finally have "orderly s' = orderly s" by (rule orderly_phase)
  with assms(1) show ?thesis by simp
next
  case (OutConnected r exts hs)
  with assms have run: "out_connected exts hs (deliver e s) = Inr s'"
    by (simp add: step_def)
  have en: "map_option sockState (outSock s) = Some SockConnecting"
    using assms(2) OutConnected by (cases "outSock s") (simp_all add: onSock_def)
  have pre: "\<not> detached s" "\<not> wsControl s" "state s \<noteq> Connected"
    using assms(1) en by (auto simp: orderly_def)
  have d: "phase (deliver e s) = (state s, wsControlManager s, wsControl s, detached s,
      messagePrefix s, map_option sockState (inSock s), Some SockConnected)"
    using en OutConnected by (cases "outSock s") (simp_all add: phase_def onOut_def)
  from out_connected_phase [OF run] d pre show ?thesis
    by (auto simp: phase_def orderly_def)
next
  case (OutError c code r hs b)
  with assms have run: "out_error (deliver e s) = Inr s'" by (simp add: step_def)
  have "phase (deliver e s) = phase s" using OutError by simp
  then have "orderly (deliver e s) = orderly s" by (rule orderly_phase)
  with assms(1) have "orderly (deliver e s)" by simp
  with run show ?thesis by (rule orderly_out_error)
next
  case DetachEventReceived
  with assms show ?thesis by (auto simp: step_def intro: orderly_detach)
next
  case (SendEventReceived ct m)
  with assms(3) have "wsControl_sendEventReceived ct m s = Inr s'" by (simp add: step_def)
  then have "phase s' = phase s" by (rule sendEvent_phase)
  then have "orderly s' = orderly s" by (rule orderly_phase)
  with assms(1) show ?thesis by simp
qed (use assms in \<open>auto simp: step_def intro: orderly_plain_slots\<close>)

lemma orderly_newSession: "orderly (newSession manager)"
  by (simp add: orderly_def newSession_def)

lemma orderly_exec: "exec es (newSession manager) = Some s \<Longrightarrow> orderly s"
  by (erule exec_invariant [where P = orderly]) (auto intro: orderly_newSession orderly_step)


section \<open>The calls of a step\<close>

lemma loggedBy_same: "log s' = log s \<Longrightarrow> loggedBy P s s'"
  by (simp add: loggedBy_def)

lemma loggedBy_trans: "loggedBy P s s1 \<Longrightarrow> loggedBy P s1 s2 \<Longrightarrow> loggedBy P s s2"
  unfolding loggedBy_def
proof (elim exE conjE)
  fix a b
  assume "log s1 = log s @ a" "list_all P a" "log s2 = log s1 @ b" "list_all P b"
  then have "log s2 = log s @ (a @ b) \<and> list_all P (a @ b)" by simp
  then show "\<exists>acts. log s2 = log s @ acts \<and> list_all P acts" by blast
qed

lemma loggedBy_start: "log s1 = log s \<Longrightarrow> loggedBy P s1 s2 \<Longrightarrow> loggedBy P s s2"
  by (simp add: loggedBy_def)

lemma loggedBy_emit: "P a \<Longrightarrow> loggedBy P s (emit a s)"
  by (simp add: loggedBy_def emit_def)

lemma permitted_cong:
  assumes "detached s' = detached s" "wsControl s' = wsControl s"
    "wsControlManager s' = wsControlManager s" "state s' = state s"
  shows "permitted e s' = permitted e s"
proof
  fix a show "permitted e s' a = permitted e s a"
    using assms by (cases a) simp_all
qed

lemma relayed_permitted:
  assumes "list_all relayed acts" and "wsControl s \<or> gripMessages acts = []"
    and "\<not> detached s" and "pumpsOut e"
  shows "list_all (permitted e s) acts"
  using assms(1,2)
proof (induction acts)
  case Nil
  then show ?case by simp
next
  case (Cons a acts)
  then show ?case using assms(3,4) by (cases a) auto
qed

lemma tryReadOut_logged:
  assumes "tryReadOut s = Inr s'" and "detached s \<or> pumpsOut e"
  shows "loggedBy (permitted e s) s s'"
proof -
  from tryReadOut_shape [OF assms(1)] obtain acts unread sock p where
    s': "s' = (relayedTo s acts p)\<lparr>outSock := Some (sock\<lparr>framesIn := unread\<rparr>)\<rparr>"
    and acts: "list_all relayed acts" "if detached s then acts = [] \<and> p = outReadInProgress s else True"
      "wsControl s \<or> gripMessages acts = []"
    by blast
  have l: "log s' = log s @ acts" by (simp add: s')
  show ?thesis
  proof (cases "detached s")
    case True
    with acts l show ?thesis by (simp add: loggedBy_def)
  next
    case False
    with assms(2) acts have "list_all (permitted e s) acts"
      by (intro relayed_permitted) simp_all
    with l show ?thesis unfolding loggedBy_def by blast
  qed
qed

lemma tryReadIn_logged:
  assumes "tryReadIn s = Inr s'" and "detached s \<or> pumpsIn e"
  shows "loggedBy (permitted e s) s s'"
proof -
  from tryReadIn_shape [OF assms(1)] obtain ws unread sock where
    s': "s' = s\<lparr>inSock := Some (sock\<lparr>framesIn := unread\<rparr>),
              outSock := addUnflushed (length ws) (outSock s),
              outPending := outPending s + int (length ws),
              log := log s @ map OutWriteFrame ws\<rparr>"
    and ws: "if detached s then ws = [] else True"
    by blast
  have l: "log s' = log s @ map OutWriteFrame ws" by (simp add: s')
  have "list_all (permitted e s) (map OutWriteFrame ws)"
    using ws assms(2) by (cases "detached s") (simp_all add: list_all_iff)
  with l show ?thesis unfolding loggedBy_def by blast
qed

lemma loggedBy_closeOut: "P OutClose \<Longrightarrow> loggedBy P s (closeOut s)"
  by (cases "outSock s") (simp_all add: closeOut_def loggedBy_def emit_def)

lemma loggedBy_closeIn: "P InClose \<Longrightarrow> loggedBy P s (closeIn s)"
  by (cases "inSock s") (simp_all add: closeIn_def loggedBy_def emit_def)

lemma loggedBy_tryFinish: "P FinishedByPassthrough \<Longrightarrow> loggedBy P s (tryFinish s)"
  by (simp add: tryFinish_def cleanup_def loggedBy_def emit_def)

lemma loggedBy_reject: "reject c r h b s = Inr s' \<Longrightarrow> P (InRespondError c r h b) \<Longrightarrow> loggedBy P s s'"
  by (cases "inSock s") (auto simp: reject_def loggedBy_def emit_def split: if_splits)

lemma loggedBy_tryNextTarget:
  assumes "tryNextTarget s = Inr s'" and "\<And>c r h b. P (InRespondError c r h b)" and "\<And>t. P (OutStart t)"
  shows "loggedBy P s s'"
proof (cases "Session.targets s")
  case Nil
  with assms(1) have "reject 502 ''Bad Gateway'' []
      (''Error while proxying to origin.'' @ [CHR 0x0A]) s = Inr s'"
    by (simp add: tryNextTarget_def rejectMessage_def)
  then show ?thesis by (rule loggedBy_reject) (rule assms(2))
next
  case (Cons t ts)
  with assms(1,3) show ?thesis
    by (auto simp: tryNextTarget_def emit_def loggedBy_def)
qed

lemma in_peerClosed_logged: "loggedBy (permitted InPeerClosed s) s (in_peerClosed s)"
  by (simp add: in_peerClosed_def loggedBy_closeOut loggedBy_same)

lemma out_peerClosed_logged: "loggedBy (permitted OutPeerClosed s) s (out_peerClosed s)"
  by (simp add: out_peerClosed_def loggedBy_closeIn loggedBy_same)

lemma in_closed_logged: "loggedBy (permitted InClosed s) s (in_closed s)"
proof -
  let ?s1 = "s\<lparr>inSock := None\<rparr>"
  let ?s2 = "if detached ?s1 then ?s1 else closeOut ?s1"
  have "loggedBy (permitted InClosed s) ?s1 ?s2"
    by (simp add: loggedBy_closeOut loggedBy_same)
  moreover have "loggedBy (permitted InClosed s) ?s2 (tryFinish ?s2)"
    by (rule loggedBy_tryFinish) simp
  ultimately have "loggedBy (permitted InClosed s) ?s1 (tryFinish ?s2)"
    by (rule loggedBy_trans)
  then show ?thesis
    by (simp add: in_closed_def Let_def loggedBy_def)
qed

lemma out_closed_logged: "loggedBy (permitted OutClosed s) s (out_closed s)"
proof -
  let ?s1 = "s\<lparr>outSock := None\<rparr>"
  let ?s2 = "if detached ?s1 then ?s1 else closeIn ?s1"
  have "loggedBy (permitted OutClosed s) ?s1 ?s2"
    by (simp add: loggedBy_closeIn loggedBy_same)
  moreover have "loggedBy (permitted OutClosed s) ?s2 (tryFinish ?s2)"
    by (rule loggedBy_tryFinish) simp
  ultimately have "loggedBy (permitted OutClosed s) ?s1 (tryFinish ?s2)"
    by (rule loggedBy_trans)
  then show ?thesis
    by (simp add: out_closed_def Let_def loggedBy_def)
qed

lemma in_error_logged: "loggedBy (permitted InError s) s (in_error s)"
  by (simp add: in_error_def Let_def tryFinish_def cleanup_def emit_def loggedBy_def)

lemma sendEvent_logged:
  "wsControl_sendEventReceived ct m s = Inr s' \<Longrightarrow>
     loggedBy (permitted (SendEventReceived ct m) s) s s'"
  by (cases "inSock s")
     (auto simp: wsControl_sendEventReceived_def loggedBy_def emit_def split: if_splits)

lemma detach_logged:
  "loggedBy (permitted DetachEventReceived s) s (wsControl_detachEventReceived s)"
proof (cases "detached s")
  case True
  then show ?thesis by (simp add: wsControl_detachEventReceived_def loggedBy_same)
next
  case False
  then have "loggedBy (permitted DetachEventReceived s) (s\<lparr>detached := True\<rparr>)
      (closeOut (s\<lparr>detached := True\<rparr>))"
    by (intro loggedBy_closeOut) simp
  with False show ?thesis
    by (simp add: wsControl_detachEventReceived_def loggedBy_def)
qed


lemma start_logged:
  assumes "start sock h en t s = Inr s'"
  shows "loggedBy (permitted (Start h en t) s) s s'"
proof (cases en)
  case None
  let ?s1 = "s\<lparr>state := Connecting, inSock := Some sock\<rparr>"
  from assms None have "reject 502 ''Bad Gateway'' [] ((''No route for host: '' @ h) @ [CHR 0x0A]) ?s1 = Inr s'"
    by (simp add: start_def Let_def rejectMessage_def split: if_splits)
  then have "loggedBy (permitted (Start h en t) s) ?s1 s'"
    by (rule loggedBy_reject) simp
  then show ?thesis by (simp add: loggedBy_def)
next
  case (Some e)
  let ?s1 = "s\<lparr>state := Connecting, inSock := Some sock, channelPrefix := Entry.prefix e,
      Session.targets := Entry.targets e, passToUpstream := (if t then True else passToUpstream s)\<rparr>"
  from assms Some have "tryNextTarget ?s1 = Inr s'"
    by (simp add: start_def Let_def split: if_splits)
  then have "loggedBy (permitted (Start h en t) s) ?s1 s'"
    by (rule loggedBy_tryNextTarget) simp_all
  then show ?thesis by (simp add: loggedBy_def)
qed

lemma out_error_logged:
  assumes "out_error s = Inr s'"
  shows "loggedBy (permitted (OutError c code r hs b) s) s s'"
proof -
  let ?P = "permitted (OutError c code r hs b) s"
  from assms obtain sock where sock: "outSock s = Some sock"
    by (auto simp: out_error_def split: option.splits)
  have fin: "loggedBy ?P s (tryFinish (s\<lparr>outSock := None\<rparr>))"
    "loggedBy ?P s (tryFinish (s\<lparr>inSock := None, outSock := None\<rparr>))"
    by (simp_all add: tryFinish_def cleanup_def emit_def loggedBy_def)
  show ?thesis
  proof (cases "detached s \<or> state s \<noteq> Connecting")
    case True
    with assms sock fin show ?thesis by (auto simp: out_error_def split: if_splits)
  next
    case False
    then have c: "\<not> detached s" "state s = Connecting" by simp_all
    have next_target: "tryNextTarget (s\<lparr>outSock := None\<rparr>) = Inr s' \<Longrightarrow> ?thesis"
    proof -
      assume "tryNextTarget (s\<lparr>outSock := None\<rparr>) = Inr s'"
      then have "loggedBy ?P (s\<lparr>outSock := None\<rparr>) s'"
        by (rule loggedBy_tryNextTarget) (simp_all add: c)
      then show ?thesis by (simp add: loggedBy_def)
    qed
    have rejected: "reject c' r' h' b' s = Inr s1 \<Longrightarrow> loggedBy ?P s (s1\<lparr>outSock := None\<rparr>)"
      for c' r' h' b' s1
    proof -
      assume "reject c' r' h' b' s = Inr s1"
      then have "loggedBy ?P s s1" by (intro loggedBy_reject [of c' r' h' b']) (simp_all add: c)
      then show ?thesis by (simp add: loggedBy_def)
    qed
    show ?thesis
    proof (cases "errorCondition sock")
      case ErrorRejected
      with assms sock c show ?thesis
        by (auto simp: out_error_def dest!: map_sum_Inr intro: rejected)
    next
      case (ErrorOther n)
      with assms sock c show ?thesis
        by (auto simp: out_error_def rejectMessage_def dest!: map_sum_Inr intro: rejected)
    qed (use assms sock c next_target in \<open>auto simp: out_error_def\<close>)
  qed
qed

lemma gripCalls_permitted:
  "list_all (permitted (OutConnected r exts hs) s) (gripCalls exts s)"
  by (simp add: gripCalls_def)

lemma out_connected_logged:
  assumes "out_connected exts hs s = Inr s'"
  shows "loggedBy (permitted (OutConnected r exts hs) s) s s'"
proof -
  let ?P = "permitted (OutConnected r exts hs) s"
  from out_connected_shape [OF assms] obtain osock :: ZWebSocket and isock :: ZWebSocket where
    run: "tryReadIn (s\<lparr>state := Connected,
                  wsControl := wsControl s \<or> (gripActive exts s \<and> wsControlManager s),
                  messagePrefix := gripPrefix exts (messagePrefix s),
                  inSock := Some (respondSuccess isock),
                  log := log s @ gripCalls exts s @ [InRespondSuccess (responseReason osock) hs]\<rparr>)
           = Inr s'"
    by blast
  define s1 where "s1 = s\<lparr>state := Connected,
                  wsControl := wsControl s \<or> (gripActive exts s \<and> wsControlManager s),
                  messagePrefix := gripPrefix exts (messagePrefix s),
                  inSock := Some (respondSuccess isock),
                  log := log s @ gripCalls exts s @ [InRespondSuccess (responseReason osock) hs]\<rparr>"
  have l1: "log s1 = log s @ (gripCalls exts s @ [InRespondSuccess (responseReason osock) hs])"
    and d1: "detached s1 = detached s"
    by (simp_all add: s1_def)
  have "list_all ?P (gripCalls exts s @ [InRespondSuccess (responseReason osock) hs])"
    by (simp add: gripCalls_permitted)
  with l1 have a: "loggedBy ?P s s1" unfolding loggedBy_def by blast
  from run have "tryReadIn s1 = Inr s'" by (simp only: s1_def)
  from tryReadIn_shape [OF this] obtain ws where
    ws: "log s' = log s1 @ map OutWriteFrame ws" "if detached s1 then ws = [] else True"
    by (elim exE conjE) simp
  have "list_all ?P (map OutWriteFrame ws)"
    using ws(2) d1 by (cases "detached s") (simp_all add: list_all_iff)
  with ws(1) have "loggedBy ?P s1 s'" unfolding loggedBy_def by blast
  with a show ?thesis by (rule loggedBy_trans)
qed

lemma loggedBy_cong: "loggedBy P s1 s' \<Longrightarrow> log s1 = log s \<Longrightarrow> loggedBy P s s'"
  by (simp add: loggedBy_def)

lemma deliver_same [simp]:
  "log (deliver e s) = log s" "detached (deliver e s) = detached s"
  "wsControl (deliver e s) = wsControl s" "wsControlManager (deliver e s) = wsControlManager s"
  "state (deliver e s) = state s" "messagePrefix (deliver e s) = messagePrefix s"
  "inPending (deliver e s) = inPending s" "outPending (deliver e s) = outPending s"
  "Session.subChannel (deliver e s) = Session.subChannel s"
  by (cases e; simp add: onIn_def onOut_def)+

lemma permitted_deliver [simp]: "permitted e (deliver e' s) = permitted e s"
  by (rule permitted_cong) simp_all

lemma step_logged:
  assumes "step e s = Inr s'"
  shows "loggedBy (permitted e s) s s'"
proof -
  let ?d = "deliver e s"
  have "loggedBy (permitted e ?d) ?d s'"
  proof (cases e)
    case (Start h en t)
    with assms show ?thesis by (auto simp only: step_def slot.simps intro: start_logged)
  next
    case (InReadyRead fs)
    with assms have "in_readyRead ?d = Inr s'" by (simp only: step_def slot.simps)
    then show ?thesis
      unfolding InReadyRead
      by (auto simp: in_readyRead_def loggedBy_same intro!: tryReadIn_logged split: if_splits)
  next
    case (InFramesWritten n)
    define s1 where "s1 = ?d\<lparr>inPending := inPending ?d - n\<rparr>"
    have p: "permitted e s1 = permitted e ?d" by (rule permitted_cong) (simp_all add: s1_def)
    have l: "log s1 = log ?d" by (simp add: s1_def)
    from assms InFramesWritten have run: "(if detached s1 then Inr s1 else tryReadOut s1) = Inr s'"
      unfolding s1_def by (simp only: step_def slot.simps in_framesWritten_def Let_def)
    have "loggedBy (permitted e s1) s1 s'"
    proof (cases "detached s1")
      case True
      with run show ?thesis by (simp add: loggedBy_same)
    next
      case False
      with run have "tryReadOut s1 = Inr s'" by simp
      then show ?thesis unfolding InFramesWritten by (rule tryReadOut_logged) simp
    qed
    with p l show ?thesis by (simp add: loggedBy_def)
  next
    case (OutReadyRead fs)
    with assms have "tryReadOut ?d = Inr s'" by (simp only: step_def slot.simps out_readyRead_def)
    then show ?thesis
      unfolding OutReadyRead by (intro tryReadOut_logged) simp_all
  next
    case (OutFramesWritten n)
    define s1 where "s1 = ?d\<lparr>outPending := outPending ?d - n\<rparr>"
    have p: "permitted e s1 = permitted e ?d" by (rule permitted_cong) (simp_all add: s1_def)
    have l: "log s1 = log ?d" by (simp add: s1_def)
    from assms OutFramesWritten have run: "(if detached s1 then Inr s1 else tryReadIn s1) = Inr s'"
      unfolding s1_def by (simp only: step_def slot.simps out_framesWritten_def Let_def)
    have "loggedBy (permitted e s1) s1 s'"
    proof (cases "detached s1")
      case True
      with run show ?thesis by (simp add: loggedBy_same)
    next
      case False
      with run have "tryReadIn s1 = Inr s'" by simp
      then show ?thesis unfolding OutFramesWritten by (rule tryReadIn_logged) simp
    qed
    with p l show ?thesis by (simp add: loggedBy_def)
  next
    case (OutConnected r exts hs)
    with assms show ?thesis by (auto simp only: step_def slot.simps intro: out_connected_logged)
  next
    case (OutError c code r hs b)
    with assms show ?thesis by (auto simp only: step_def slot.simps intro: out_error_logged)
  next
    case InPeerClosed
    with assms show ?thesis
      by (auto simp only: step_def slot.simps sum.inject intro: in_peerClosed_logged)
  next
    case InClosed
    with assms show ?thesis
      by (auto simp only: step_def slot.simps sum.inject intro: in_closed_logged)
  next
    case InError
    with assms show ?thesis
      by (auto simp only: step_def slot.simps sum.inject intro: in_error_logged)
  next
    case OutPeerClosed
    with assms show ?thesis
      by (auto simp only: step_def slot.simps sum.inject intro: out_peerClosed_logged)
  next
    case OutClosed
    with assms show ?thesis
      by (auto simp only: step_def slot.simps sum.inject intro: out_closed_logged)
  next
    case (SendEventReceived ct m)
    with assms show ?thesis
      by (auto simp only: step_def slot.simps intro: sendEvent_logged)
  next
    case DetachEventReceived
    with assms show ?thesis
      by (auto simp only: step_def slot.simps sum.inject intro: detach_logged)
  qed
  then show ?thesis by (simp add: loggedBy_def)
qed

section \<open>The flags of a session\<close>

lemma flags_closeOut [simp]:
  "wsControlManager (closeOut s) = wsControlManager s" "wsControl (closeOut s) = wsControl s"
  "detached (closeOut s) = detached s"
  by (cases "outSock s"; simp add: closeOut_def emit_def)+

lemma flags_closeIn [simp]:
  "wsControlManager (closeIn s) = wsControlManager s" "wsControl (closeIn s) = wsControl s"
  "detached (closeIn s) = detached s"
  by (cases "inSock s"; simp add: closeIn_def emit_def)+

lemma flags_tryFinish [simp]:
  "wsControlManager (tryFinish s) = wsControlManager s"
  "detached (tryFinish s) = detached s"
  by (simp_all add: tryFinish_def cleanup_def emit_def)









lemma on_fields [simp]:
  "log (onIn g s) = log s" "detached (onIn g s) = detached s"
  "wsControl (onIn g s) = wsControl s" "wsControlManager (onIn g s) = wsControlManager s"
  "state (onIn g s) = state s" "messagePrefix (onIn g s) = messagePrefix s"
  "inPending (onIn g s) = inPending s" "outPending (onIn g s) = outPending s"
  "outSock (onIn g s) = outSock s" "inSock (onIn g s) = map_option g (inSock s)"
  "outReadInProgress (onIn g s) = outReadInProgress s"
  "log (onOut g s) = log s" "detached (onOut g s) = detached s"
  "wsControl (onOut g s) = wsControl s" "wsControlManager (onOut g s) = wsControlManager s"
  "state (onOut g s) = state s" "messagePrefix (onOut g s) = messagePrefix s"
  "inPending (onOut g s) = inPending s" "outPending (onOut g s) = outPending s"
  "inSock (onOut g s) = inSock s" "outSock (onOut g s) = map_option g (outSock s)"
  "outReadInProgress (onOut g s) = outReadInProgress s"
  by (simp_all add: onIn_def onOut_def)








section \<open>Detach\<close>

text \<open>
  C8. A second detach event changes nothing: the slot run twice gives the state that
  the slot run once gives, and a run that delivers two consecutive detach events ends,
  whatever events follow, as the run that delivers one.
\<close>

theorem detach_twice:
  "wsControl_detachEventReceived (wsControl_detachEventReceived s) =
     wsControl_detachEventReceived s \<and>
   exec (DetachEventReceived # DetachEventReceived # es) s = exec (DetachEventReceived # es) s"
  by (simp add: step_def wsControl_detachEventReceived_def closeOut_def emit_def close_def
      split: option.splits)

theorem detach_twice_witness:
  "exec [DetachEventReceived, DetachEventReceived] ((connectingSession True)\<lparr>wsControl := True\<rparr>) =
     Some ((connectingSession True)\<lparr>wsControl := True, detached := True,
        outSock := Some (close createSocket), log := [OutStart exampleTarget, OutClose]\<rparr>)"
  using detach_twice [of "(connectingSession True)\<lparr>wsControl := True\<rparr>" "[]"]
  by (simp add: run_defs wsControl_detachEventReceived_def closeOut_def close_def)

section \<open>Origin errors during the handshake\<close>

text \<open>
  C5, as amended. While the session is connecting (not detached, both sockets held), an
  error of the origin socket with condition Connect, ConnectTimeout or Tls discards the
  socket and runs \<^verbatim>\<open>tryNextTarget\<close>; with condition Rejected it answers
  the client with the origin's code, reason, headers and body, unchanged, and leaves the
  session in state Closing without an origin socket; with any other condition it answers
  502, Bad Gateway, no headers, and the body \<open>Error while proxying to origin.\<close>
  followed by a line feed.
\<close>

theorem out_error_connecting:
  assumes "state s = Connecting" and "\<not> detached s"
    and "outSock s = Some osock" and "inSock s = Some isock"
  shows "(c = ErrorConnect \<or> c = ErrorConnectTimeout \<or> c = ErrorTls \<longrightarrow>
            step (OutError c code reason hs body) s = tryNextTarget (s\<lparr>outSock := None\<rparr>)) \<and>
         (c = ErrorRejected \<longrightarrow>
            step (OutError c code reason hs body) s =
              Inr (emit (InRespondError code reason hs body)
                     (s\<lparr>state := Closing, outSock := None\<rparr>))) \<and>
         (c = ErrorOther n \<longrightarrow>
            step (OutError c code reason hs body) s =
              Inr (emit (InRespondError 502 ''Bad Gateway'' []
                           (''Error while proxying to origin.'' @ [CHR 0x0A]))
                     (s\<lparr>state := Closing, outSock := None\<rparr>)))"
  using assms
  by (auto simp: step_def onOut_def out_error_def handshake_defs)

theorem out_error_connecting_witness:
  "state (connectingSession False) = Connecting \<and> \<not> detached (connectingSession False) \<and>
   outSock (connectingSession False) = Some createSocket \<and>
   inSock (connectingSession False) = Some acceptedSocket \<and>
   step (OutError ErrorRejected 401 ''Unauthorized'' [(''WWW-Authenticate'', ''Bearer'')] ''nope'')
     (connectingSession False) =
     Inr ((connectingSession False)\<lparr>state := Closing, outSock := None,
        log := [OutStart exampleTarget,
                InRespondError 401 ''Unauthorized'' [(''WWW-Authenticate'', ''Bearer'')] ''nope'']\<rparr>)"
  using out_error_connecting [of "connectingSession False" createSocket acceptedSocket
      ErrorRejected 401 "''Unauthorized''" "[(''WWW-Authenticate'', ''Bearer'')]" "''nope''" 0]
  by (simp add: connectingSession_def newSession_def emit_def)

text \<open>
  The body of the 502 response is not the bare message: on the example route, an origin
  error with another condition puts the message with a line feed into the response.
\<close>

theorem out_error_body_counterexample:
  "map_option log
     (exec [Start ''example.com'' (Some exampleEntry) False, OutError (ErrorOther 0) 0 [] [] []]
        (newSession False)) =
     Some [OutStart exampleTarget,
           InRespondError 502 ''Bad Gateway'' [] (''Error while proxying to origin.'' @ [CHR 0x0A])] \<and>
   ''Error while proxying to origin.'' @ [CHR 0x0A] \<noteq> ''Error while proxying to origin.''"
  by (simp add: run_defs out_error_def)
section \<open>Routing of upstream frames\<close>

lemma skipContinuations:
  assumes "outReadInProgress s = None" and "inPending s < PENDING_FRAMES_MAX"
    and "list_all (\<lambda>f. type f = Continuation) conts"
  shows "tryReadOut_loop (conts @ rest) s = tryReadOut_loop rest s"
  using assms by (induction conts) (auto simp: isContent_def routeContent_def)

lemma tryReadOut_loop_final_control:
  assumes "wsControl s" and "\<not> detached s" and "inPending s < PENDING_FRAMES_MAX"
    and "type f = Text" and "startsWith (data f) ''c:''" and "\<not> more_flag f"
  shows "tryReadOut_loop (f # rest) s =
           tryReadOut_loop rest
             (s\<lparr>outReadInProgress := None, log := log s @ [SendGripMessage (drop 2 (data f))]\<rparr>)"
proof -
  have "routeContent f s =
      Inr (s\<lparr>outReadInProgress := None, log := log s @ [SendGripMessage (drop 2 (data f))]\<rparr>)"
    using assms by (cases s) (simp add: routeContent_def endOfMessage_def emit_def)
  with assms show ?thesis by (simp add: isContent_def)
qed

lemma tryReadOut_loop_fragmented_control:
  assumes "wsControl s" and "\<not> detached s" and "inPending s < PENDING_FRAMES_MAX"
    and "type f = Text" and "startsWith (data f) ''c:''" and "more_flag f"
    and "list_all (\<lambda>c. type c = Continuation) conts"
  shows "tryReadOut_loop (f # conts @ rest) s = tryReadOut_loop rest (s\<lparr>outReadInProgress := None\<rparr>)"
proof -
  have "routeContent f s = Inr (s\<lparr>outReadInProgress := None\<rparr>)"
    using assms by (cases s) (simp add: routeContent_def endOfMessage_def)
  with assms have "tryReadOut_loop (f # conts @ rest) s =
      tryReadOut_loop (conts @ rest) (s\<lparr>outReadInProgress := None\<rparr>)"
    by (simp add: isContent_def)
  also have "\<dots> = tryReadOut_loop rest (s\<lparr>outReadInProgress := None\<rparr>)"
    using assms by (intro skipContinuations) simp_all
  finally show ?thesis .
qed


text \<open>
  C6, as amended. A control session is attached, the session is not detached and the
  budget has room, so that the pump reads the frame. A Text head frame from the origin
  whose payload starts with \<open>c:\<close> and that is the whole message is handed to
  the control session without its first two bytes and is not written to the client:
  when it arrives alone at an empty queue, the step of \<^verbatim>\<open>readyRead\<close>
  ends in the same session with that one call appended to the log and no message in
  progress; with more frames queued behind it, the loop goes on from that state. When
  the frame has \<open>more\<close> set, it and the Continuation frames after it are
  consumed with no call on either peer: the step ends in the same session with no
  message in progress.
\<close>

theorem control_message_routed:
  assumes "wsControl s" and "\<not> detached s" and "inPending s < PENDING_FRAMES_MAX"
    and "outSock s = Some sock" and "framesIn sock = []"
    and "type f = Text" and "startsWith (data f) ''c:''"
  shows "(\<not> more_flag f \<longrightarrow>
            step (OutReadyRead [f]) s =
              Inr (s\<lparr>outReadInProgress := None,
                     log := log s @ [SendGripMessage (drop 2 (data f))]\<rparr>) \<and>
            tryReadOut_loop (f # rest) s =
              tryReadOut_loop rest
                (s\<lparr>outReadInProgress := None,
                   log := log s @ [SendGripMessage (drop 2 (data f))]\<rparr>)) \<and>
         (more_flag f \<and> list_all (\<lambda>c. type c = Continuation) conts \<longrightarrow>
            step (OutReadyRead (f # conts)) s = Inr (s\<lparr>outReadInProgress := None\<rparr>) \<and>
            tryReadOut_loop (f # conts @ rest) s =
              tryReadOut_loop rest (s\<lparr>outReadInProgress := None\<rparr>))"
proof (intro conjI impI)
  assume m: "\<not> more_flag f"
  show l: "tryReadOut_loop (f # rest) s =
      tryReadOut_loop rest
        (s\<lparr>outReadInProgress := None, log := log s @ [SendGripMessage (drop 2 (data f))]\<rparr>)"
    for rest
    using assms(1-3,6,7) m by (rule tryReadOut_loop_final_control)
  have d: "deliver (OutReadyRead [f]) s = s\<lparr>outSock := Some (sock\<lparr>framesIn := [f]\<rparr>)\<rparr>"
    using assms(4,5) by (simp add: onOut_def)
  have "tryReadOut_loop [f] (s\<lparr>outSock := Some (sock\<lparr>framesIn := [f]\<rparr>)\<rparr>) =
      Inr ([], s\<lparr>outSock := Some (sock\<lparr>framesIn := [f]\<rparr>), outReadInProgress := None,
                  log := log s @ [SendGripMessage (drop 2 (data f))]\<rparr>)"
    using assms(1-3,6,7) m
    by (subst tryReadOut_loop_final_control) simp_all
  then have "tryReadOut (s\<lparr>outSock := Some (sock\<lparr>framesIn := [f]\<rparr>)\<rparr>) =
      Inr (s\<lparr>outReadInProgress := None, log := log s @ [SendGripMessage (drop 2 (data f))]\<rparr>)"
    using assms(4,5) by (cases s; cases sock) (simp add: tryReadOut_def)
  then show "step (OutReadyRead [f]) s =
      Inr (s\<lparr>outReadInProgress := None, log := log s @ [SendGripMessage (drop 2 (data f))]\<rparr>)"
    by (simp only: step_def slot.simps out_readyRead_def d)
next
  assume m: "more_flag f \<and> list_all (\<lambda>c. type c = Continuation) conts"
  show l: "tryReadOut_loop (f # conts @ rest) s = tryReadOut_loop rest (s\<lparr>outReadInProgress := None\<rparr>)"
    for rest
    using assms(1-3,6,7) m by (intro tryReadOut_loop_fragmented_control) simp_all
  have d: "deliver (OutReadyRead (f # conts)) s =
      s\<lparr>outSock := Some (sock\<lparr>framesIn := f # conts\<rparr>)\<rparr>"
    using assms(4,5) by (simp add: onOut_def)
  have "tryReadOut_loop (f # conts @ []) (s\<lparr>outSock := Some (sock\<lparr>framesIn := f # conts\<rparr>)\<rparr>) =
      Inr ([], s\<lparr>outSock := Some (sock\<lparr>framesIn := f # conts\<rparr>), outReadInProgress := None\<rparr>)"
    using assms(1-3,6,7) m
    by (subst tryReadOut_loop_fragmented_control) simp_all
  then have "tryReadOut (s\<lparr>outSock := Some (sock\<lparr>framesIn := f # conts\<rparr>)\<rparr>) =
      Inr (s\<lparr>outReadInProgress := None\<rparr>)"
    using assms(4,5) by (cases s; cases sock) (simp add: tryReadOut_def)
  then show "step (OutReadyRead (f # conts)) s = Inr (s\<lparr>outReadInProgress := None\<rparr>)"
    by (simp only: step_def slot.simps out_readyRead_def d)
qed


theorem control_message_routed_witness:
  "exec [Start ''example.com'' (Some exampleEntry) False, OutConnected [] [''grip''] []]
     (newSession True) = Some (connectedSession True True ''m:'') \<and>
   wsControl (connectedSession True True ''m:'') \<and>
   \<not> detached (connectedSession True True ''m:'') \<and>
   inPending (connectedSession True True ''m:'') < PENDING_FRAMES_MAX \<and>
   outSock (connectedSession True True ''m:'') = Some (createSocket\<lparr>sockState := SockConnected\<rparr>) \<and>
   framesIn (createSocket\<lparr>sockState := SockConnected\<rparr>) = [] \<and>
   startsWith ''c:{}'' ''c:'' \<and>
   step (OutReadyRead [\<lparr>type = Text, data = ''c:{}'', more_flag = False\<rparr>])
     (connectedSession True True ''m:'') =
     Inr ((connectedSession True True ''m:'')
            \<lparr>log := [OutStart exampleTarget, ControlStart, InRespondSuccess [] [],
                     SendGripMessage ''{}'']\<rparr>) \<and>
   step (OutReadyRead [\<lparr>type = Text, data = ''c:{'', more_flag = True\<rparr>,
                       \<lparr>type = Continuation, data = ''}'', more_flag = False\<rparr>])
     (connectedSession True True ''m:'') = Inr (connectedSession True True ''m:'')"
  using control_message_routed [of "connectedSession True True ''m:''"
      "createSocket\<lparr>sockState := SockConnected\<rparr>"
      "\<lparr>type = Text, data = ''c:{}'', more_flag = False\<rparr>" "[]" "[]"]
    control_message_routed [of "connectedSession True True ''m:''"
      "createSocket\<lparr>sockState := SockConnected\<rparr>"
      "\<lparr>type = Text, data = ''c:{'', more_flag = True\<rparr>" "[]"
      "[\<lparr>type = Continuation, data = ''}'', more_flag = False\<rparr>]"]
    connectedSession_reached [of True]
  by (simp add: connectedSession_def newSession_def createSocket_def startsWith_def
      PENDING_FRAMES_MAX_def)

text \<open>
  Without the condition that the session is not detached the claim fails: after a
  detach the control session is still attached, and the same frame is read and
  discarded, with nothing handed to the control session.
\<close>

theorem control_message_detached_counterexample:
  "map_option
     (\<lambda>s. (wsControl s, detached s, map_option framesIn (outSock s), gripMessages (log s),
           clientFrames (log s)))
     (exec [Start ''example.com'' (Some exampleEntry) False,
            OutConnected [] [''grip''] [],
            DetachEventReceived,
            OutReadyRead [\<lparr>type = Text, data = ''c:{}'', more_flag = False\<rparr>]]
        (newSession True)) =
   Some (True, True, Some [], [], [])"
  by (simp add: run_defs out_connected_def activateGrip_def Let_def pump_defs out_readyRead_def
      respondSuccess_def isNull_def afterSemi_def parseParams_def
      wsControl_detachEventReceived_def closeOut_def close_def)

text \<open>
  C1, at the input where the code departs from it. The control session is attached and
  the message prefix is \<open>m:\<close>; the origin sends one message in two frames, a
  Text head \<open>x\<close> with \<open>more\<close> set and a final Continuation
  \<open>y\<close>. The head has neither prefix and is dropped, but
  \<^verbatim>\<open>outReadInProgress\<close> stays set, and the Continuation is written to
  the client: the two frames of one message are routed differently.
\<close>

theorem unprefixed_fragments:
  "map_option (\<lambda>s. (clientFrames (log s), gripMessages (log s)))
     (exec [Start ''example.com'' (Some exampleEntry) False,
            OutConnected [] [''grip''] [],
            OutReadyRead [\<lparr>type = Text, data = ''x'', more_flag = True\<rparr>,
                          \<lparr>type = Continuation, data = ''y'', more_flag = False\<rparr>]]
        (newSession True)) =
   Some ([\<lparr>type = Continuation, data = ''y'', more_flag = False\<rparr>], [])"
  by (simp add: run_defs out_connected_def activateGrip_def Let_def pump_defs out_readyRead_def respondSuccess_def
      isNull_def afterSemi_def parseParams_def)

section \<open>The message prefix\<close>

text \<open>
  C3, as amended. In every run of a session, when the origin socket signals
  \<^verbatim>\<open>connected\<close>, the message prefix afterwards is decided by the
  extension \<open>grip\<close> of the response alone: when the extension is there (and its
  parameters parse) the prefix is its parameter \<open>message-prefix\<close>, or \<open>m:\<close>
  without that parameter; when it is not there the prefix is not assigned and is the
  empty byte string of the constructor, also when GRIP handling is activated by the
  target's sub-channel.
\<close>

theorem messagePrefix_on_connect:
  assumes "exec es (newSession manager) = Some s"
    and "enabled (OutConnected r exts hs) s"
    and "step (OutConnected r exts hs) s = Inr s'"
  shows "messagePrefix s' =
           (if isNull (getExtension exts ''grip'') then []
            else case params (getExtension exts ''grip'') ''message-prefix'' of
                   Some v \<Rightarrow> v
                 | None \<Rightarrow> ''m:'')"
proof -
  have o: "orderly s" using assms(1) by (rule orderly_exec)
  have en: "map_option sockState (outSock s) = Some SockConnecting"
    using assms(2) by (cases "outSock s") (simp_all add: onSock_def)
  with o have "messagePrefix s = []" by (auto simp: orderly_def)
  moreover have "messagePrefix (deliver (OutConnected r exts hs) s) = messagePrefix s"
    by (simp add: onOut_def)
  moreover have "out_connected exts hs (deliver (OutConnected r exts hs) s) = Inr s'"
    using assms(3) by (simp only: step_def slot.simps)
  ultimately show ?thesis
    using out_connected_phase [of exts hs "deliver (OutConnected r exts hs) s" s']
    by (simp add: phase_def gripPrefix_def Let_def)
qed

theorem messagePrefix_on_connect_witness:
  "exec [Start ''example.com'' (Some exampleEntry) False] (newSession True) =
     Some (connectingSession True) \<and>
   enabled (OutConnected [] [''grip; message-prefix=p:''] []) (connectingSession True) \<and>
   map_sum id messagePrefix
     (step (OutConnected [] [''grip; message-prefix=p:''] []) (connectingSession True)) = Inr ''p:''"
proof -
  have run: "exec [Start ''example.com'' (Some exampleEntry) False] (newSession True) =
      Some (connectingSession True)"
    by (rule connectingSession_reached)
  have en: "enabled (OutConnected [] [''grip; message-prefix=p:''] []) (connectingSession True)"
    by (simp add: connectingSession_def onSock_def createSocket_def)
  have g: "getExtension [''grip; message-prefix=p:''] ''grip'' =
      \<lparr>name = ''grip'', params = [''message-prefix'' \<mapsto> ''p:'']\<rparr>"
    by (simp add: parseParams_def trimmed_def isSpace_def)
  have "\<exists>s'. step (OutConnected [] [''grip; message-prefix=p:''] []) (connectingSession True) = Inr s'"
    by (simp add: run_defs out_connected_def activateGrip_def Let_def tryReadIn_def
        respondSuccess_def parseParams_def trimmed_def isSpace_def isNull_def)
  then obtain s' where
    st: "step (OutConnected [] [''grip; message-prefix=p:''] []) (connectingSession True) = Inr s'" ..
  from messagePrefix_on_connect [OF run en st, unfolded g] have "messagePrefix s' = ''p:''"
    by (simp add: isNull_def)
  with run en st show ?thesis by simp
qed

text \<open>
  GRIP handling activated by the sub-channel alone: the control session is started and
  subscribed, and the message prefix is empty, not \<open>m:\<close>.
\<close>

theorem messagePrefix_subChannel_counterexample:
  "map_option (\<lambda>s. (wsControl s, messagePrefix s, log s))
     (exec [Start ''example.com''
              (Some \<lparr>prefix = [], targets = [exampleTarget\<lparr>Target.subChannel := ''room''\<rparr>]\<rparr>) False,
            OutConnected [] [] []]
        (newSession True)) =
     Some (True, [],
           [OutStart (exampleTarget\<lparr>Target.subChannel := ''room''\<rparr>), ControlStart,
            SendGripSubscribe ''room'', InRespondSuccess [] []]) \<and>
   [] \<noteq> ''m:''"
  by (simp add: run_defs out_connected_def activateGrip_def Let_def tryReadIn_def isNull_def
      nullExtension_def respondSuccess_def)

section \<open>A session without a control manager\<close>







section \<open>Error responses\<close>

lemma reject_assert: "state s = Connecting \<Longrightarrow> reject c r h b s \<noteq> Inl AssertConnecting"
  by (cases "inSock s") (simp_all add: reject_def)

lemma tryNextTarget_assert:
  "state s = Connecting \<Longrightarrow> tryNextTarget s \<noteq> Inl AssertConnecting"
  by (cases "Session.targets s") (simp_all add: tryNextTarget_def rejectMessage_def reject_assert)

lemma start_assert: "start sock h en t s \<noteq> Inl AssertConnecting"
  by (cases en) (simp_all add: start_def Let_def rejectMessage_def reject_assert tryNextTarget_assert)

lemma tryReadIn_loop_assert: "tryReadIn_loop fs s \<noteq> Inl AssertConnecting"
  by (induction fs arbitrary: s) (auto split: option.splits)

lemma tryReadIn_assert: "tryReadIn s \<noteq> Inl AssertConnecting"
  using tryReadIn_loop_assert
  by (auto simp: tryReadIn_def split: option.splits sum.splits)

lemma writeIn_assert: "writeIn f s \<noteq> Inl AssertConnecting"
  by (cases "inSock s") (simp_all add: writeIn_def)

lemma map_sum_Inl: "map_sum id g r = Inl c \<Longrightarrow> r = Inl c"
  by (cases r) auto

lemma routeContent_assert: "routeContent f s \<noteq> Inl AssertConnecting"
  using writeIn_assert
  by (auto simp: routeContent_def Let_def split: if_splits dest!: map_sum_Inl)

lemma tryReadOut_loop_assert: "tryReadOut_loop fs s \<noteq> Inl AssertConnecting"
proof (induction fs arbitrary: s)
  case Nil
  show ?case by simp
next
  case (Cons f fs)
  show ?case
    using Cons.IH routeContent_assert [of f s] writeIn_assert [of f s]
    by (auto split: sum.splits)
qed

lemma tryReadOut_assert: "tryReadOut s \<noteq> Inl AssertConnecting"
  using tryReadOut_loop_assert
  by (auto simp: tryReadOut_def split: option.splits sum.splits)

lemma out_connected_assert: "out_connected exts hs s \<noteq> Inl AssertConnecting"
  using tryReadIn_assert
  by (auto simp: out_connected_def Let_def split: option.splits)

lemma out_error_assert: "out_error s \<noteq> Inl AssertConnecting"
proof (cases "outSock s")
  case None
  then show ?thesis by (simp add: out_error_def)
next
  case (Some sock)
  show ?thesis
  proof (cases "\<not> detached s \<and> state s = Connecting")
    case False
    with Some show ?thesis by (auto simp: out_error_def)
  next
    case True
    then have "tryNextTarget (s\<lparr>outSock := None\<rparr>) \<noteq> Inl AssertConnecting"
      "reject c r h b s \<noteq> Inl AssertConnecting" for c r h b
      by (simp_all add: tryNextTarget_assert reject_assert)
    with True Some show ?thesis
      by (cases "errorCondition sock")
         (auto simp: out_error_def rejectMessage_def dest!: map_sum_Inl)
  qed
qed

lemma step_assert: "step e s \<noteq> Inl AssertConnecting"
  by (cases e)
     (simp_all add: step_def start_assert in_readyRead_def tryReadIn_assert in_framesWritten_def
        Let_def tryReadOut_assert out_connected_assert out_readyRead_def out_framesWritten_def
        out_error_assert wsControl_sendEventReceived_def split: option.splits)

lemma in_error_connected:
  "\<not> detached s \<Longrightarrow>
     in_error s =
       s\<lparr>inSock := None, outSock := None, wsControl := False,
         log := log s @ [FinishedByPassthrough]\<rparr>"
  "detached s \<Longrightarrow> in_error s = tryFinish (s\<lparr>inSock := None\<rparr>)"
  by (cases s; simp add: in_error_def Let_def tryFinish_def cleanup_def emit_def)+

lemma out_error_connected:
  assumes "state s \<noteq> Connecting" and "outSock s = Some sock"
  shows "\<not> detached s \<Longrightarrow>
     step (OutError c code r hs b) s =
       Inr (s\<lparr>inSock := None, outSock := None, wsControl := False,
              log := log s @ [FinishedByPassthrough]\<rparr>)"
    and "detached s \<Longrightarrow> step (OutError c code r hs b) s = Inr (tryFinish (s\<lparr>outSock := None\<rparr>))"
  using assms
  by (cases s; simp add: step_def onOut_def out_error_def tryFinish_def cleanup_def emit_def)+


text \<open>
  C9, as amended. The assertion of \<^verbatim>\<open>reject\<close> never fires, in any state
  and on any event: every call of it stands where the state is Connecting. A step that
  adds an error response for the client to the log is the call of
  \<^verbatim>\<open>start\<close> on the idle session or an origin error met in state
  Connecting. Once the session is connected, an error of the client socket or of the
  origin socket sends the client nothing: when the session is not detached it releases
  both sockets and the control session and emits the finished signal; when the session
  is detached it releases the socket that failed and keeps the other.
\<close>

theorem reject_only_connecting:
  "step e s \<noteq> Inl AssertConnecting \<and>
   (enabled e s \<and> step e s = Inr s' \<and> InRespondError code r h b \<in> set (log s') \<and>
    InRespondError code r h b \<notin> set (log s) \<longrightarrow>
      (state s = Idle \<and> isStart e) \<or> (state s = Connecting \<and> isOutError e)) \<and>
   (state s = Connected \<and> \<not> detached s \<longrightarrow>
      step InError s =
        Inr (s\<lparr>inSock := None, outSock := None, wsControl := False,
               log := log s @ [FinishedByPassthrough]\<rparr>)) \<and>
   (state s = Connected \<and> \<not> detached s \<and> outSock s = Some osock \<longrightarrow>
      step (OutError c code' r' h' b') s =
        Inr (s\<lparr>inSock := None, outSock := None, wsControl := False,
               log := log s @ [FinishedByPassthrough]\<rparr>)) \<and>
   (state s = Connected \<and> detached s \<longrightarrow>
      step InError s = Inr (tryFinish (s\<lparr>inSock := None\<rparr>))) \<and>
   (state s = Connected \<and> detached s \<and> outSock s = Some osock \<longrightarrow>
      step (OutError c code' r' h' b') s = Inr (tryFinish (s\<lparr>outSock := None\<rparr>)))"
proof (intro conjI impI)
  show "step e s \<noteq> Inl AssertConnecting" by (rule step_assert)
next
  assume a: "enabled e s \<and> step e s = Inr s' \<and> InRespondError code r h b \<in> set (log s') \<and>
    InRespondError code r h b \<notin> set (log s)"
  then obtain acts where acts: "log s' = log s @ acts" "list_all (permitted e s) acts"
    using step_logged [of e s s'] by (auto simp: loggedBy_def)
  with a have "InRespondError code r h b \<in> set acts" by auto
  with acts(2) have "permitted e s (InRespondError code r h b)"
    unfolding list_all_iff by blast
  then have "isStart e \<or> (isOutError e \<and> state s = Connecting)" by auto
  moreover have "state s = Idle" if "isStart e"
    using that a by (cases e) simp_all
  ultimately show "(state s = Idle \<and> isStart e) \<or> (state s = Connecting \<and> isOutError e)"
    by blast
next
  assume "state s = Connected \<and> \<not> detached s"
  then show "step InError s =
      Inr (s\<lparr>inSock := None, outSock := None, wsControl := False,
             log := log s @ [FinishedByPassthrough]\<rparr>)"
    by (simp add: step_def in_error_connected)
next
  assume "state s = Connected \<and> \<not> detached s \<and> outSock s = Some osock"
  then show "step (OutError c code' r' h' b') s =
      Inr (s\<lparr>inSock := None, outSock := None, wsControl := False,
             log := log s @ [FinishedByPassthrough]\<rparr>)"
    by (intro out_error_connected(1) [of s osock]) simp_all
next
  assume "state s = Connected \<and> detached s"
  then show "step InError s = Inr (tryFinish (s\<lparr>inSock := None\<rparr>))"
    by (simp add: step_def in_error_connected)
next
  assume "state s = Connected \<and> detached s \<and> outSock s = Some osock"
  then show "step (OutError c code' r' h' b') s = Inr (tryFinish (s\<lparr>outSock := None\<rparr>))"
    by (intro out_error_connected(2) [of s osock]) simp_all
qed


theorem reject_only_connecting_witness:
  "enabled (OutError ErrorRejected 401 ''Unauthorized'' [] ''nope'') (connectingSession False) \<and>
   step (OutError ErrorRejected 401 ''Unauthorized'' [] ''nope'') (connectingSession False) =
     Inr ((connectingSession False)\<lparr>state := Closing, outSock := None,
        log := [OutStart exampleTarget, InRespondError 401 ''Unauthorized'' [] ''nope'']\<rparr>) \<and>
   InRespondError 401 ''Unauthorized'' [] ''nope'' \<notin> set (log (connectingSession False)) \<and>
   state (connectingSession False) = Connecting \<and>
   isOutError (OutError ErrorRejected 401 ''Unauthorized'' [] ''nope'') \<and>
   state (connectedSession True True ''m:'') = Connected \<and>
   \<not> detached (connectedSession True True ''m:'') \<and>
   step InError (connectedSession True True ''m:'') =
     Inr ((connectedSession True True ''m:'')\<lparr>inSock := None, outSock := None, wsControl := False,
        log := [OutStart exampleTarget, ControlStart, InRespondSuccess [] [],
                FinishedByPassthrough]\<rparr>)"
proof -
  let ?e = "OutError ErrorRejected 401 ''Unauthorized'' [] ''nope''"
  let ?s' = "(connectingSession False)\<lparr>state := Closing, outSock := None,
        log := [OutStart exampleTarget, InRespondError 401 ''Unauthorized'' [] ''nope'']\<rparr>"
  have en: "enabled ?e (connectingSession False)"
    by (simp add: connectingSession_def onSock_def createSocket_def)
  have st: "step ?e (connectingSession False) = Inr ?s'"
    by (simp add: run_defs out_error_def)
  have new: "InRespondError 401 ''Unauthorized'' [] ''nope'' \<in> set (log ?s')"
    "InRespondError 401 ''Unauthorized'' [] ''nope'' \<notin> set (log (connectingSession False))"
    by (simp_all add: connectingSession_def)
  have c: "state (connectedSession True True ''m:'') = Connected"
    "\<not> detached (connectedSession True True ''m:'')"
    by (simp_all add: connectedSession_def newSession_def)
  note t1 = reject_only_connecting [of ?e "connectingSession False" ?s' 401 "''Unauthorized''" "[]" "''nope''"]
  note t2 = reject_only_connecting [of InError "connectedSession True True ''m:''"]
  from t1 en st new have "(state (connectingSession False) = Idle \<and> isStart ?e) \<or>
      (state (connectingSession False) = Connecting \<and> isOutError ?e)"
    by blast
  then have "state (connectingSession False) = Connecting" by simp
  moreover from t2 c have "step InError (connectedSession True True ''m:'') =
     Inr ((connectedSession True True ''m:'')\<lparr>inSock := None, outSock := None, wsControl := False,
        log := log (connectedSession True True ''m:'') @ [FinishedByPassthrough]\<rparr>)"
    by blast
  ultimately show ?thesis
    using en st new(2) c by (simp add: connectedSession_def)
qed

text \<open>
  A detached session keeps the client socket when the origin socket fails: the
  failure after the handshake releases one transport, not both.
\<close>

theorem detached_origin_error_counterexample:
  "map_option
     (\<lambda>s. (state s, detached s, map_option sockState (inSock s), map_option sockState (outSock s),
           log s))
     (exec [Start ''example.com'' (Some exampleEntry) False,
            OutConnected [] [''grip''] [],
            DetachEventReceived,
            OutError (ErrorOther 0) 0 [] [] []]
        (newSession True)) =
   Some (Connected, True, Some SockConnected, None,
         [OutStart exampleTarget, ControlStart, InRespondSuccess [] [], OutClose])"
  by (simp add: run_defs out_connected_def activateGrip_def Let_def pump_defs
      respondSuccess_def isNull_def afterSemi_def parseParams_def
      wsControl_detachEventReceived_def closeOut_def close_def out_error_def tryFinish_def)

end
